theory Spec2Isabelle
  imports Main "HOL-Library.Word" "HOL-Library.Finite_Map" "HOL-Library.Sublist"
begin

section \<open>Errors\<close>

text \<open>
  Go reports failures as \<open>error\<close> values and, for programming errors, as panics.
  The errno-like constants are the ones the operating system calls of the model can
  report; \<open>Wrap msg e\<close> is \<open>fmt.Errorf("msg: %w", e)\<close>. \<open>Fatal msg\<close> is a fatal error
  of the Go runtime, which ends the program and cannot be recovered from.
\<close>

datatype error =
    ENOENT | ENOTDIR | EEXIST | EISDIR | ENOTEMPTY | EINVAL | EBUSY | EIO
  | ErrBadPattern
  | RelError
  | KeySizeError
  | Unresolved
  | Wrap string error
  | Panic string
  | Fatal string

type_synonym bytes = "8 word list"

section \<open>The Go library functions used by the ignore rules\<close>

text \<open>
  \<open>path/filepath\<close> and \<open>strings\<close> belong to the Go standard library (go.mod asks for
  Go 1.20), not to the repository. They are written out here after the library, for
  Unix (separator \<open>/\<close>, backslash escapes). A Go string is a sequence of bytes and a
  \<open>char\<close> is one byte; where the library reads a rune it decodes UTF-8.
\<close>

abbreviation backslash :: char where "backslash \<equiv> CHR 0x5C"

definition strings_HasSuffix :: "string \<Rightarrow> string \<Rightarrow> bool" where
  "strings_HasSuffix s suf = suffix suf s"

definition strings_TrimSuffix :: "string \<Rightarrow> string \<Rightarrow> string" where
  "strings_TrimSuffix s suf =
     (if strings_HasSuffix s suf then take (length s - length suf) s else s)"

fun strings_Contains :: "string \<Rightarrow> string \<Rightarrow> bool" where
  "strings_Contains [] substr = (substr = [])"
| "strings_Contains (c # s) substr = (prefix substr (c # s) \<or> strings_Contains s substr)"

text \<open>\<open>filepath.Base\<close>: the last element of the path, after removing trailing slashes.\<close>

definition filepath_Base :: "string \<Rightarrow> string" where
  "filepath_Base path =
     (if path = [] then ''.''
      else
        (let stripped = rev (dropWhile (\<lambda>c. c = CHR ''/'') (rev path));
             last_elem = rev (takeWhile (\<lambda>c. c \<noteq> CHR ''/'') (rev stripped))
         in if last_elem = [] then ''/'' else last_elem))"

text \<open>
  \<open>utf8.DecodeRuneInString\<close>: the first rune of the string and its width in bytes. An
  encoding that is invalid or cut short gives \<open>(RuneError, 1)\<close>, the empty string
  \<open>(RuneError, 0)\<close>. The first byte fixes the width and the range that the second byte
  must lie in; every later byte must be a continuation byte.
\<close>

definition RuneError :: nat where
  "RuneError = 0xFFFD"

fun utf8_DecodeRuneInString :: "string \<Rightarrow> nat \<times> nat" where
  "utf8_DecodeRuneInString [] = (RuneError, 0)"
| "utf8_DecodeRuneInString (c # s) =
     (let s0 = (of_char c :: nat) in
      if s0 < 0x80 then (s0, 1)
      else if s0 < 0xC2 \<or> 0xF4 < s0 then (RuneError, 1)
      else
        (let sz = (if s0 < 0xE0 then 2 else if s0 < 0xF0 then 3 else (4 :: nat));
             lo = (if s0 = 0xE0 then 0xA0 else if s0 = 0xF0 then 0x90 else (0x80 :: nat));
             hi = (if s0 = 0xED then 0x9F else if s0 = 0xF4 then 0x8F else (0xBF :: nat))
         in if length (c # s) < sz then (RuneError, 1)
            else
              (let s1 = (of_char (s ! 0) :: nat) in
               if s1 < lo \<or> hi < s1 then (RuneError, 1)
               else if sz \<le> 2 then (s0 mod 32 * 64 + s1 mod 64, 2)
               else
                 (let s2 = (of_char (s ! 1) :: nat) in
                  if s2 < 0x80 \<or> 0xBF < s2 then (RuneError, 1)
                  else if sz \<le> 3 then (s0 mod 16 * 4096 + s1 mod 64 * 64 + s2 mod 64, 3)
                  else
                    (let s3 = (of_char (s ! 2) :: nat) in
                     if s3 < 0x80 \<or> 0xBF < s3 then (RuneError, 1)
                     else (s0 mod 8 * 262144 + s1 mod 64 * 4096 + s2 mod 64 * 64 + s3 mod 64,
                           4))))))"

lemma DecodeRune_width:
  "utf8_DecodeRuneInString (c # s) = (r, n) \<Longrightarrow> 1 \<le> n"
  by (auto simp: Let_def split: if_splits)

declare utf8_DecodeRuneInString.simps(2) [simp del]

text \<open>
  \<open>getEsc\<close> reads one possibly escaped rune of a character class; the class must go on
  after it.
\<close>

definition getEsc :: "string \<Rightarrow> error + nat \<times> string" where
  "getEsc chunk0 =
     (if chunk0 = [] \<or> hd chunk0 = CHR ''-'' \<or> hd chunk0 = CHR '']'' then Inl ErrBadPattern
      else
        (let chunk = (if hd chunk0 = backslash then tl chunk0 else chunk0) in
         if chunk = [] then Inl ErrBadPattern
         else
           (case utf8_DecodeRuneInString chunk of
              (r, n) \<Rightarrow>
                if r = RuneError \<and> n = 1 then Inl ErrBadPattern
                else if drop n chunk = [] then Inl ErrBadPattern
                else Inr (r, drop n chunk))))"

lemma getEsc_shorter: "getEsc chunk = Inr (r, nchunk) \<Longrightarrow> length nchunk < length chunk"
proof -
  assume g: "getEsc chunk = Inr (r, nchunk)"
  then have ne: "chunk \<noteq> []" by (auto simp: getEsc_def)
  define ch where "ch = (if hd chunk = backslash then tl chunk else chunk)"
  from g ne have ch_ne: "ch \<noteq> []"
    by (auto simp: getEsc_def Let_def ch_def split: if_splits)
  obtain r' n where d: "utf8_DecodeRuneInString ch = (r', n)"
    by (cases "utf8_DecodeRuneInString ch") auto
  from ch_ne obtain c s where "ch = c # s" by (cases ch) auto
  with d have n: "1 \<le> n" by (auto dest: DecodeRune_width)
  from g ne ch_ne d have "nchunk = drop n ch"
    by (auto simp: getEsc_def Let_def ch_def [symmetric] split: if_splits)
  moreover have "length ch \<le> length chunk" by (simp add: ch_def)
  ultimately show ?thesis using n ch_ne by (cases ch) auto
qed

lemma getEsc_nonempty: "getEsc chunk = Inr (r, nchunk) \<Longrightarrow> nchunk \<noteq> []"
  by (auto simp: getEsc_def Let_def split: if_splits prod.splits)

text \<open>
  The loop of \<open>matchChunk\<close> that parses the ranges of a character class, up to the
  closing bracket. \<open>r\<close> is the rune of the name under test, \<open>match\<close> whether a
  range seen so far holds it, \<open>nrange\<close> the number of ranges seen.
\<close>

function class_ranges :: "nat \<Rightarrow> string \<Rightarrow> bool \<Rightarrow> nat \<Rightarrow> error + bool \<times> string" where
  "class_ranges r chunk match nrange =
     (if chunk \<noteq> [] \<and> hd chunk = CHR '']'' \<and> nrange > 0 then Inr (match, tl chunk)
      else
        (case getEsc chunk of
           Inl e \<Rightarrow> Inl e
         | Inr (lo, chunk1) \<Rightarrow>
             (if hd chunk1 = CHR ''-'' then
                (case getEsc (tl chunk1) of
                   Inl e \<Rightarrow> Inl e
                 | Inr (hi, chunk2) \<Rightarrow>
                     class_ranges r chunk2
                       (match \<or> (lo \<le> r \<and> r \<le> hi))
                       (nrange + 1))
              else class_ranges r chunk1 (match \<or> lo = r) (nrange + 1))))"
  by pat_completeness auto
termination
proof (relation "measure (\<lambda>(r, chunk, match, nrange). length chunk)", goal_cases)
  case 1
  show ?case by simp
next
  case (2 r chunk match nrange x2 lo chunk1 x2a hi chunk2)
  from 2 have "length chunk1 < length chunk" "length chunk2 < length (tl chunk1)"
    by (auto dest: getEsc_shorter)
  then show ?case by simp
next
  case (3 r chunk match nrange x2 lo chunk1)
  then show ?case by (auto dest: getEsc_shorter)
qed

declare class_ranges.simps [simp del]

lemma class_ranges_shorter:
  "class_ranges r chunk match nrange = Inr (m, rest) \<Longrightarrow> length rest < length chunk"
proof (induction r chunk match nrange rule: class_ranges.induct)
  case (1 r chunk match nrange)
  show ?case
  proof (cases "chunk \<noteq> [] \<and> hd chunk = CHR '']'' \<and> nrange > 0")
    case True
    with "1.prems" have "rest = tl chunk"
      by (subst (asm) class_ranges.simps) simp
    with True show ?thesis by (cases chunk) auto
  next
    case False
    have unfold: "class_ranges r chunk match nrange =
        (case getEsc chunk of
           Inl e \<Rightarrow> Inl e
         | Inr (lo, chunk1) \<Rightarrow>
             (if hd chunk1 = CHR ''-'' then
                (case getEsc (tl chunk1) of
                   Inl e \<Rightarrow> Inl e
                 | Inr (hi, chunk2) \<Rightarrow>
                     class_ranges r chunk2
                       (match \<or> (lo \<le> r \<and> r \<le> hi))
                       (nrange + 1))
              else class_ranges r chunk1 (match \<or> lo = r) (nrange + 1)))"
      by (subst class_ranges.simps, rule if_not_P, rule False)
    from "1.prems" unfold obtain lo chunk1 where g: "getEsc chunk = Inr (lo, chunk1)"
      by (cases "getEsc chunk") auto
    have l1: "length chunk1 < length chunk" using g by (rule getEsc_shorter)
    show ?thesis
    proof (cases "hd chunk1 = CHR ''-''")
      case dash: True
      from "1.prems" unfold g dash obtain hi chunk2 where
        g2: "getEsc (tl chunk1) = Inr (hi, chunk2)"
        by (cases "getEsc (tl chunk1)") auto
      from "1.prems" unfold g dash g2 have
        "class_ranges r chunk2
           (match \<or> (lo \<le> r \<and> r \<le> hi))
           (nrange + 1) = Inr (m, rest)"
        by simp
      with "1.IH"(1) [OF False g refl dash g2 refl]
      have "length rest < length chunk2" by simp
      moreover have "length chunk2 < length (tl chunk1)" using g2 by (rule getEsc_shorter)
      ultimately show ?thesis using l1 by simp
    next
      case nodash: False
      from "1.prems" unfold g nodash have
        "class_ranges r chunk1 (match \<or> lo = r) (nrange + 1) = Inr (m, rest)"
        by simp
      with "1.IH"(2) [OF False g refl nodash]
      have "length rest < length chunk1" by simp
      then show ?thesis using l1 by simp
    qed
  qed
qed

text \<open>
  \<open>matchChunk\<close>: match a star-free chunk of the pattern against the beginning of
  \<open>s\<close>. The result \<open>Inr (Some rest)\<close> is Go's \<open>(rest, true, nil)\<close>, \<open>Inr None\<close> is
  \<open>("", false, nil)\<close> and \<open>Inl e\<close> is \<open>("", false, e)\<close>. Once \<open>failed\<close> is set the
  loop goes on over the chunk only to check that it is well formed, and reads \<open>s\<close> no
  more. A character class and \<open>?\<close> take one rune of \<open>s\<close>, every other character of
  the chunk is compared with one byte.
\<close>

function matchChunk :: "bool \<Rightarrow> string \<Rightarrow> string \<Rightarrow> error + string option" where
  "matchChunk failed [] s = (if failed then Inr None else Inr (Some s))"
| "matchChunk failed0 (c # chunk) s =
    (let failed = (failed0 \<or> s = []) in
     if c = CHR ''['' then
       (let r = (if failed then 0 else fst (utf8_DecodeRuneInString s));
            s1 = (if failed then s else drop (snd (utf8_DecodeRuneInString s)) s);
            negated = (chunk \<noteq> [] \<and> hd chunk = CHR ''^'');
            chunk1 = (if negated then tl chunk else chunk)
        in case class_ranges r chunk1 False 0 of
             Inl e \<Rightarrow> Inl e
           | Inr (match, chunk2) \<Rightarrow> matchChunk (failed \<or> match = negated) chunk2 s1)
     else if c = CHR ''?'' then
       (if failed then matchChunk True chunk s
        else matchChunk (hd s = CHR ''/'') chunk (drop (snd (utf8_DecodeRuneInString s)) s))
     else if c = backslash then
       (case chunk of
          [] \<Rightarrow> Inl ErrBadPattern
        | d # chunk1 \<Rightarrow>
            if failed then matchChunk True chunk1 s
            else matchChunk (d \<noteq> hd s) chunk1 (tl s))
     else
       (if failed then matchChunk True chunk s
        else matchChunk (c \<noteq> hd s) chunk (tl s)))"
  by pat_completeness auto
termination
  by (relation "measure (\<lambda>(failed, chunk, s). length chunk)")
     (auto dest!: class_ranges_shorter split: if_splits)

text \<open>
  \<open>scanChunk\<close>: strip the leading stars, then cut the pattern before the next star that
  is not inside a character class. \<open>scan\<close> is its scanning loop, \<open>inrange\<close> its flag.
\<close>

fun scan :: "bool \<Rightarrow> string \<Rightarrow> string \<times> string" where
  "scan inrange [] = ([], [])"
| "scan inrange (c # cs) =
    (if c = backslash then
       (case cs of
          [] \<Rightarrow> ([c], [])
        | d # ds \<Rightarrow> (case scan inrange ds of (chunk, rest) \<Rightarrow> (c # d # chunk, rest)))
     else if c = CHR ''['' then (case scan True cs of (chunk, rest) \<Rightarrow> (c # chunk, rest))
     else if c = CHR '']'' then (case scan False cs of (chunk, rest) \<Rightarrow> (c # chunk, rest))
     else if c = CHR ''*'' \<and> \<not> inrange then ([], c # cs)
     else (case scan inrange cs of (chunk, rest) \<Rightarrow> (c # chunk, rest)))"

definition scanChunk :: "string \<Rightarrow> bool \<times> string \<times> string" where
  "scanChunk pattern =
     (let p = dropWhile (\<lambda>c. c = CHR ''*'') pattern
      in case scan False p of (chunk, rest) \<Rightarrow> (p \<noteq> pattern, chunk, rest))"

lemma scan_length: "scan inrange p = (chunk, rest) \<Longrightarrow> length chunk + length rest = length p"
proof (induction inrange p arbitrary: chunk rest rule: scan.induct)
  case (1 inrange)
  then show ?case by simp
next
  case (2 inrange c cs)
  show ?case
  proof (cases cs)
    case Nil
    with "2.prems" show ?thesis by (auto split: if_splits)
  next
    case (Cons d ds)
    show ?thesis
    proof (cases "c = backslash")
      case True
      with Cons "2.prems" obtain ch where ch: "scan inrange ds = (ch, rest)" "chunk = c # d # ch"
        by (cases "scan inrange ds") auto
      from "2.IH"(1) [OF True Cons ch(1)] ch(2) Cons show ?thesis by simp
    next
      case False
      with "2.prems" "2.IH"(2-4) show ?thesis
        by (cases "scan True cs"; cases "scan False cs"; cases "scan inrange cs")
           (auto split: if_splits)
    qed
  qed
qed

lemma scan_chunk_nonempty:
  assumes "scan inrange (c # cs) = (chunk, rest)" and "c \<noteq> CHR ''*''"
  shows "chunk \<noteq> []"
proof (cases "c = backslash")
  case True
  with assms(1) show ?thesis
    by (cases cs; cases "scan inrange (tl cs)") auto
next
  case False
  with assms show ?thesis
    by (cases "scan True cs"; cases "scan False cs"; cases "scan inrange cs")
       (auto split: if_splits)
qed

lemma scanChunk_shorter:
  assumes "pattern \<noteq> []" and "scanChunk pattern = (star, chunk, rest)"
  shows "length rest < length pattern"
proof -
  define p where "p = dropWhile (\<lambda>c. c = CHR ''*'') pattern"
  from assms(2) have sc: "scan False p = (chunk, rest)"
    unfolding scanChunk_def Let_def p_def [symmetric]
    by (cases "scan False p") simp
  then have len: "length chunk + length rest = length p" by (rule scan_length)
  have le: "length p \<le> length pattern" unfolding p_def by (rule length_dropWhile_le)
  show ?thesis
  proof (cases "p = pattern")
    case True
    with assms(1) obtain c cs where pc: "p = c # cs" by (cases p) auto
    then have "p \<noteq> []" by simp
    then have "\<not> (hd p = CHR ''*'')"
      unfolding p_def by (rule hd_dropWhile)
    with pc have cne: "c \<noteq> CHR ''*''" by simp
    from sc have "scan False (c # cs) = (chunk, rest)" by (simp only: pc)
    then have "chunk \<noteq> []" using cne by (rule scan_chunk_nonempty)
    then have "0 < length chunk" by simp
    moreover from len have "length chunk + length rest = length pattern" by (simp only: True)
    ultimately show ?thesis by linarith
  next
    case False
    have "length p \<noteq> length pattern"
    proof
      assume eq: "length p = length pattern"
      have tw: "takeWhile (\<lambda>c. c = CHR ''*'') pattern @ p = pattern"
        by (simp add: p_def)
      then have "length (takeWhile (\<lambda>c. c = CHR ''*'') pattern) + length p = length pattern"
        by (metis length_append)
      with eq have "takeWhile (\<lambda>c. c = CHR ''*'') pattern = []" by simp
      with tw have "p = pattern" by simp
      with False show False by simp
    qed
    with le len show ?thesis by linarith
  qed
qed

lemma scanChunk_shorter_sym:
  "pattern \<noteq> [] \<Longrightarrow> (star, chunk, rest) = scanChunk pattern \<Longrightarrow> length rest < length pattern"
  by (rule scanChunk_shorter [OF _ sym])

text \<open>
  The loop of \<open>Match\<close> that, after a star, looks for the chunk at every later position
  of the name, never skipping over a separator. \<open>final\<close> says that no pattern is left
  after the chunk, so that the chunk has to use up the name.
\<close>

fun star_loop :: "string \<Rightarrow> bool \<Rightarrow> string \<Rightarrow> error + string option" where
  "star_loop chunk final [] = Inr None"
| "star_loop chunk final (c # name) =
     (if c = CHR ''/'' then Inr None
      else
        (case matchChunk False chunk name of
           Inr (Some t) \<Rightarrow> if final \<and> t \<noteq> [] then star_loop chunk final name else Inr (Some t)
         | Inl e \<Rightarrow> Inl e
         | Inr None \<Rightarrow> star_loop chunk final name))"

text \<open>
  \<open>filepath.Match(pattern, name)\<close>: \<open>Inr matched\<close>, or \<open>Inl ErrBadPattern\<close>. When a chunk
  does not match, \<open>Match\<close> answers \<open>(false, nil)\<close> without looking at the rest of the
  pattern.
\<close>

function filepath_Match :: "string \<Rightarrow> string \<Rightarrow> error + bool" where
  "filepath_Match pattern name =
     (if pattern = [] then Inr (name = [])
      else
        (case scanChunk pattern of
           (star, chunk, rest) \<Rightarrow>
             if star \<and> chunk = [] then Inr (\<not> strings_Contains name ''/'')
             else
               (case matchChunk False chunk name of
                  Inl e \<Rightarrow> Inl e
                | Inr m \<Rightarrow>
                    (case (case m of Some t \<Rightarrow> if t = [] \<or> rest \<noteq> [] then Some t else None
                                   | None \<Rightarrow> None) of
                       Some t \<Rightarrow> filepath_Match rest t
                     | None \<Rightarrow>
                         if star then
                           (case star_loop chunk (rest = []) name of
                              Inl e \<Rightarrow> Inl e
                            | Inr (Some t) \<Rightarrow> filepath_Match rest t
                            | Inr None \<Rightarrow> Inr False)
                         else Inr False))))"
  by pat_completeness auto
termination
  by (relation "measure (\<lambda>(pattern, name). length pattern)")
     (auto dest: scanChunk_shorter_sym)

declare filepath_Match.simps [simp del]

section \<open>pkg/utils: IsPathExcluded\<close>

text \<open>
  The loop over the ignore patterns returns at the first pattern that matches the base
  name as a glob (an error of \<open>Match\<close> counts as no match), or that ends in \<open>/\<close> and,
  without that slash, occurs somewhere in the path.
\<close>

fun IsPathExcluded :: "string \<Rightarrow> string list \<Rightarrow> bool" where
  "IsPathExcluded path [] = False"
| "IsPathExcluded path (pattern # ignorePatterns) =
     (if filepath_Match pattern (filepath_Base path) = Inr True then True
      else if strings_HasSuffix pattern ''/''
              \<and> strings_Contains path (strings_TrimSuffix pattern ''/'') then True
      else IsPathExcluded path ignorePatterns)"

section \<open>pkg/checksum\<close>

text \<open>
  The disk maps a file name to the file stored under it. A file is its bytes;
  \<open>Faulty\<close> is a file whose bytes can be read to their end, where the device then
  reports an input/output error instead of the end of the file. An open file
  (\<open>*os.File\<close>) is the part of the file not yet read.
\<close>

datatype os_File = Readable bytes | Faulty bytes

type_synonym disk = "string \<rightharpoonup> os_File"

definition os_Open :: "disk \<Rightarrow> string \<Rightarrow> error + os_File" where
  "os_Open d name = (case d name of None \<Rightarrow> Inl ENOENT | Some f \<Rightarrow> Inr f)"

text \<open>
  \<open>file.Read(buffer)\<close> with a buffer of \<open>n\<close> bytes: \<open>Inr (Some chunk)\<close> is
  \<open>(len(chunk), nil)\<close>, \<open>Inr None\<close> is \<open>(0, io.EOF)\<close>, \<open>Inl e\<close> is \<open>(0, e)\<close>. A read
  into an empty buffer returns \<open>(0, nil)\<close> at once, whatever is left of the file.
  \<open>os.File.Read\<close> hands the operating system at most \<open>maxRW\<close> bytes of the buffer
  (\<open>internal/poll\<close>: one gibibyte), and the operating system fills what it is handed
  whenever the regular file has that many bytes left.
\<close>

definition maxRW :: nat where
  "maxRW = 2 ^ 30"

fun file_Read :: "os_File \<Rightarrow> nat \<Rightarrow> (error + bytes option) \<times> os_File" where
  "file_Read (Readable rest) n =
     (if n = 0 then (Inr (Some []), Readable rest)
      else if rest = [] then (Inr None, Readable rest)
      else (Inr (Some (take (min n maxRW) rest)), Readable (drop (min n maxRW) rest)))"
| "file_Read (Faulty rest) n =
     (if n = 0 then (Inr (Some []), Faulty rest)
      else if rest = [] then (Inl EIO, Faulty rest)
      else (Inr (Some (take (min n maxRW) rest)), Faulty (drop (min n maxRW) rest)))"

text \<open>The block size is an \<open>int64\<close>; \<open>sint\<close> reads its value.\<close>

type_synonym int64 = "64 word"

record Calculator =
  blockSize :: int64

definition NewCalculator :: "int64 \<Rightarrow> Calculator" where
  "NewCalculator bs = \<lparr> blockSize = bs \<rparr>"

text \<open>
  \<open>CalculateFileChecksum\<close>: \<open>io.Copy\<close> streams the whole file through the hash. The hash
  function (\<open>crypto/sha256\<close>) is a parameter of the model.
\<close>

fun read_all :: "os_File \<Rightarrow> error + bytes" where
  "read_all (Readable rest) = Inr rest"
| "read_all (Faulty rest) = Inl EIO"

definition CalculateFileChecksum ::
  "(bytes \<Rightarrow> bytes) \<Rightarrow> Calculator \<Rightarrow> disk \<Rightarrow> string \<Rightarrow> error + bytes" where
  "CalculateFileChecksum sha256 c d filepath =
     (case os_Open d filepath of
        Inl e \<Rightarrow> Inl e
      | Inr file \<Rightarrow>
          (case read_all file of
             Inl e \<Rightarrow> Inl e
           | Inr content \<Rightarrow> Inr (sha256 content)))"

text \<open>
  \<open>make([]byte, n)\<close> (\<open>runtime.makeslice\<close>) panics when the length is negative or
  exceeds \<open>maxAlloc\<close>, the size of the address space that the allocator manages
  (\<open>2^48\<close> bytes on 64-bit Linux). A length within that limit that the machine cannot
  provide ends the program with the fatal error "out of memory"; \<open>avail\<close> is the number
  of bytes that the machine can still provide. On success the buffer has \<open>n\<close> bytes.
\<close>

definition maxAlloc :: nat where
  "maxAlloc = 2 ^ 48"

definition make_bytes :: "nat \<Rightarrow> int \<Rightarrow> error + nat" where
  "make_bytes avail n =
     (if n < 0 \<or> int maxAlloc < n then Inl (Panic ''runtime error: makeslice: len out of range'')
      else if avail < nat n then Inl (Fatal ''runtime: out of memory'')
      else Inr (nat n))"

text \<open>
  The loop of \<open>CalculateBlockChecksum\<close>, \<open>for blockNum := int64(0); ; blockNum++\<close>. It
  has no bound of its own and leaves only when a read reports the end of the file or
  an error, so it is a partial function: \<open>None\<close> is a loop that never leaves. On
  leaving at the end of the file it gives the loop's variables \<open>blockNum\<close> and
  \<open>checksums\<close>. (\<open>blockNum\<close> is an \<open>int64\<close>; a file holds fewer than \<open>2^63\<close> bytes, so
  with a buffer of at least one byte it cannot overflow.)
\<close>

partial_function (option) block_loop ::
  "(bytes \<Rightarrow> bytes) \<Rightarrow> nat \<Rightarrow> os_File \<Rightarrow> int \<Rightarrow> (int \<rightharpoonup> bytes)
     \<Rightarrow> (error + int \<times> (int \<rightharpoonup> bytes)) option" where
  "block_loop sha256 buflen file blockNum checksums =
     (case file_Read file buflen of
        (Inr None, file') \<Rightarrow> Some (Inr (blockNum, checksums))
      | (Inl e, file') \<Rightarrow> Some (Inl e)
      | (Inr (Some chunk), file') \<Rightarrow>
          block_loop sha256 buflen file' (blockNum + 1) (checksums(blockNum \<mapsto> sha256 chunk)))"

text \<open>
  \<open>CalculateBlockChecksum\<close> opens the file, makes the buffer of \<open>c.blockSize\<close> bytes and
  runs the loop. \<open>None\<close> is a call that never returns.
\<close>

definition CalculateBlockChecksum ::
  "(bytes \<Rightarrow> bytes) \<Rightarrow> nat \<Rightarrow> Calculator \<Rightarrow> disk \<Rightarrow> string
     \<Rightarrow> (error + (int \<rightharpoonup> bytes)) option" where
  "CalculateBlockChecksum sha256 avail c d filepath =
     (case os_Open d filepath of
        Inl e \<Rightarrow> Some (Inl e)
      | Inr file \<Rightarrow>
          (case make_bytes avail (sint (blockSize c)) of
             Inl e \<Rightarrow> Some (Inl e)
           | Inr buflen \<Rightarrow>
               (case block_loop sha256 buflen file 0 Map.empty of
                  None \<Rightarrow> None
                | Some (Inl e) \<Rightarrow> Some (Inl e)
                | Some (Inr (blockNum, checksums)) \<Rightarrow> Some (Inr checksums))))"

section \<open>internal/watcher: the watcher and its Close\<close>

text \<open>
  A Go channel, as far as \<open>close\<close> is concerned: closing a nil channel or a channel
  that is already closed panics.
\<close>

datatype chan = NilChan | OpenChan | ClosedChan

definition chan_close :: "chan \<Rightarrow> error + chan" where
  "chan_close c =
     (case c of
        NilChan \<Rightarrow> Inl (Panic ''close of nil channel'')
      | ClosedChan \<Rightarrow> Inl (Panic ''close of closed channel'')
      | OpenChan \<Rightarrow> Inr ClosedChan)"

text \<open>
  The \<open>fsnotify\<close> watcher is a collaborator: the paths it watches and whether it has
  been closed. Its \<open>Close\<close> may be called again and returns no error.
\<close>

record fsnotify_Watcher =
  watched :: "string list"
  fs_closed :: bool

definition fsnotify_Close :: "fsnotify_Watcher \<Rightarrow> fsnotify_Watcher \<times> error option" where
  "fsnotify_Close fw = (fw\<lparr>fs_closed := True\<rparr>, None)"

record Watcher =
  watcher :: fsnotify_Watcher
  events_chan :: chan
  errors_chan :: chan
  done_chan :: chan
  debounceMs :: int

text \<open>\<open>NewWatcher\<close>; \<open>fsn\<close> is what \<open>fsnotify.NewWatcher()\<close> returns.\<close>

definition NewWatcher :: "error + fsnotify_Watcher \<Rightarrow> int \<Rightarrow> error + Watcher" where
  "NewWatcher fsn ms =
     (case fsn of
        Inl e \<Rightarrow> Inl (Wrap ''failed to create watcher'' e)
      | Inr fsWatcher \<Rightarrow>
          Inr \<lparr> watcher = fsWatcher, events_chan = OpenChan, errors_chan = OpenChan,
                done_chan = OpenChan, debounceMs = ms \<rparr>)"

text \<open>
  \<open>Close\<close>: \<open>close(w.done)\<close>, then \<open>return w.watcher.Close()\<close>. \<open>Inl\<close> is a panic,
  \<open>Inr (w', err)\<close> the watcher afterwards and the error returned.
\<close>

definition Watcher_Close :: "Watcher \<Rightarrow> error + Watcher \<times> error option" where
  "Watcher_Close w =
     (case chan_close (done_chan w) of
        Inl p \<Rightarrow> Inl p
      | Inr ch \<Rightarrow>
          (case fsnotify_Close (watcher w) of
             (fw, err) \<Rightarrow> Inr (w\<lparr>done_chan := ch, watcher := fw\<rparr>, err)))"

section \<open>internal/watcher: the loop of processEvents\<close>

text \<open>
  \<open>processEvents\<close> is one sequential loop around a \<open>select\<close> over four channels. The
  model runs it over a timed trace of what happens to the loop, with the loop's local
  variables as the state: \<open>eventMap\<close>, the pending event of each path (a Go map, whose
  order of iteration is not specified; here the order of first insertion), and the
  timer, which is either stopped, or running towards a deadline, and whose channel
  \<open>timer.C\<close> may hold a tick that the loop has not taken yet. Times are in
  milliseconds. \<open>sent_events\<close> and \<open>sent_errors\<close> are what the loop has sent on
  \<open>w.events\<close> and \<open>w.errors\<close>, each event with the time of sending; the consumer of
  these unbuffered channels is taken to be ready, so that a send does not hold the loop
  up.
\<close>

record FileEvent =
  Path :: string
  Operation :: string
  Time :: int

datatype occurrence =
    FsEvent string string
  | FsEventsClosed
  | FsError error
  | FsErrorsClosed
  | TimerExpires
  | TimerTick
  | DoneClosed

record loop =
  eventMap :: "(string \<times> FileEvent) list"
  timer :: "int option"
  timer_C :: bool
  sent_events :: "(int \<times> FileEvent) list"
  sent_errors :: "error list"
  returned :: bool
  clock :: int

text \<open>\<open>eventMap[name] = event\<close>.\<close>

fun upsert :: "string \<Rightarrow> FileEvent \<Rightarrow> (string \<times> FileEvent) list \<Rightarrow> (string \<times> FileEvent) list" where
  "upsert name event [] = [(name, event)]"
| "upsert name event ((k, v) # pending) =
     (if k = name then (name, event) # pending else (k, v) # upsert name event pending)"

text \<open>
  The state before the loop: the map is empty and the timer made by \<open>time.NewTimer\<close> has
  been stopped at once, before it could expire.
\<close>

definition loop_start :: "int \<Rightarrow> loop" where
  "loop_start t0 =
     \<lparr> eventMap = [], timer = None, timer_C = False, sent_events = [], sent_errors = [],
       returned = False, clock = t0 \<rparr>"

text \<open>
  One occurrence at time \<open>t\<close>; \<open>None\<close> when it cannot happen in the state: after the
  loop has returned, back in time, an expiry of a timer that is stopped or has not
  reached its deadline, a tick that \<open>timer.C\<close> does not hold.

  \<^item> \<open>FsEvent name op\<close>: \<open>w.watcher.Events\<close> delivers an event with \<open>event.Name = name\<close>
    and \<open>event.Op.String() = op\<close>; the loop stores it under its name with \<open>time.Now()\<close>
    and resets the timer to expire \<open>debounceMs\<close> later (at once when \<open>debounceMs\<close> is not
    positive). \<open>Reset\<close> does not take a tick out of \<open>timer.C\<close>.
  \<^item> \<open>FsEventsClosed\<close>, \<open>FsErrorsClosed\<close>: a channel of the \<open>fsnotify\<close> watcher is
    closed, and the loop returns.
  \<^item> \<open>FsError e\<close>: \<open>w.watcher.Errors\<close> delivers \<open>e\<close>, which the loop sends on.
  \<^item> \<open>TimerExpires\<close>: the runtime finds the deadline of the running timer reached and
    puts a tick into \<open>timer.C\<close>; the timer no longer runs.
  \<^item> \<open>TimerTick\<close>: the loop receives the tick from \<open>timer.C\<close>, sends every pending
    event and empties the map.
  \<^item> \<open>DoneClosed\<close>: \<open>w.done\<close> is closed (by \<open>Close\<close>), and the loop returns.
\<close>

definition loop_step :: "Watcher \<Rightarrow> loop \<Rightarrow> int \<times> occurrence \<Rightarrow> loop option" where
  "loop_step w s x =
     (case x of (t, occ) \<Rightarrow>
        if returned s \<or> t < clock s then None
        else
          (case occ of
             FsEvent name op \<Rightarrow>
               Some (s\<lparr> eventMap := upsert name \<lparr> Path = name, Operation = op, Time = t \<rparr> (eventMap s),
                        timer := Some (t + max 0 (debounceMs w)),
                        clock := t \<rparr>)
           | FsEventsClosed \<Rightarrow> Some (s\<lparr> returned := True, clock := t \<rparr>)
           | FsError e \<Rightarrow> Some (s\<lparr> sent_errors := sent_errors s @ [e], clock := t \<rparr>)
           | FsErrorsClosed \<Rightarrow> Some (s\<lparr> returned := True, clock := t \<rparr>)
           | TimerExpires \<Rightarrow>
               (case timer s of
                  None \<Rightarrow> None
                | Some deadline \<Rightarrow>
                    if deadline \<le> t then Some (s\<lparr> timer := None, timer_C := True, clock := t \<rparr>)
                    else None)
           | TimerTick \<Rightarrow>
               if timer_C s then
                 Some (s\<lparr> sent_events := sent_events s @ map (\<lambda>(name, event). (t, event)) (eventMap s),
                          eventMap := [],
                          timer_C := False,
                          clock := t \<rparr>)
               else None
           | DoneClosed \<Rightarrow> Some (s\<lparr> returned := True, clock := t \<rparr>)))"

fun loop_run :: "Watcher \<Rightarrow> loop \<Rightarrow> (int \<times> occurrence) list \<Rightarrow> loop option" where
  "loop_run w s [] = Some s"
| "loop_run w s (x # trace) =
     (case loop_step w s x of None \<Rightarrow> None | Some s' \<Rightarrow> loop_run w s' trace)"

text \<open>
  \<open>processEvents\<close>, started at time \<open>t0\<close>, over a trace: the state of the loop after the
  trace, or \<open>None\<close> when the trace is not one that can happen.
\<close>

definition processEvents :: "Watcher \<Rightarrow> int \<Rightarrow> (int \<times> occurrence) list \<Rightarrow> loop option" where
  "processEvents w t0 trace = loop_run w (loop_start t0) trace"



section \<open>Paths and the two file trees\<close>

text \<open>
  A path is the list of the components of a cleaned absolute path; \<open>[]\<close> is the root.
  \<open>filepath.Dir\<close> drops the last component, \<open>filepath.Join\<close> appends the components of
  its second argument, going up at \<open>..\<close>, and \<open>filepath.Rel\<close> drops the common prefix and
  goes up once for each component left of the base; it fails when the base would have
  to go up from \<open>..\<close>. The relative path is handed to \<open>filepath.Match\<close> as a string, the
  components joined by the separator, and \<open>.\<close> for the directory itself.
\<close>

type_synonym path = "string list"

definition filepath_Dir :: "path \<Rightarrow> path" where
  "filepath_Dir p = butlast p"

definition filepath_Join :: "path \<Rightarrow> path \<Rightarrow> path" where
  "filepath_Join a b = foldl (\<lambda>acc c. if c = ''..'' then butlast acc else acc @ [c]) a b"

fun common_prefix :: "path \<Rightarrow> path \<Rightarrow> nat" where
  "common_prefix (a # as) (b # bs) = (if a = b then Suc (common_prefix as bs) else 0)"
| "common_prefix as bs = 0"

definition filepath_Rel :: "path \<Rightarrow> path \<Rightarrow> error + path" where
  "filepath_Rel basepath targpath =
     (let k = common_prefix basepath targpath;
          base_left = drop k basepath
      in if base_left \<noteq> [] \<and> hd base_left = ''..'' then Inl RelError
         else Inr (replicate (length base_left) ''..'' @ drop k targpath))"

fun path_string :: "path \<Rightarrow> string" where
  "path_string [] = ''.''"
| "path_string [c] = c"
| "path_string (c # cs) = c @ ''/'' @ path_string cs"

text \<open>
  The source is a tree: a regular file with its bytes and permission bits, a symbolic
  link with its target string, or a directory with its permission bits and its
  children by name, in the order \<open>filepath.Walk\<close> visits them. Source and
  destination are kept apart: nothing that is written to the destination changes what
  the walk of the source sees (the two directories do not contain each other). The
  model resolves paths by components and follows no link; access permissions are not
  enforced.
\<close>

datatype node = File bytes nat | Symlink string | Dir nat "(string \<times> node) list"

text \<open>
  \<open>os.FileMode\<close> is a set of bits; the model keeps the two type bits the code tests and
  the permission bits.
\<close>

record FileMode =
  IsDir :: bool
  ModeSymlink :: bool
  Perm :: nat

record FileInfo =
  Size :: int
  Mode :: FileMode

definition isSymlink :: "FileMode \<Rightarrow> bool" where
  "isSymlink mode = ModeSymlink mode"

fun info_of :: "node \<Rightarrow> FileInfo" where
  "info_of (File content pm) =
     \<lparr> Size = int (length content), Mode = \<lparr> IsDir = False, ModeSymlink = False, Perm = pm \<rparr> \<rparr>"
| "info_of (Symlink target) =
     \<lparr> Size = int (length target), Mode = \<lparr> IsDir = False, ModeSymlink = True, Perm = 511 \<rparr> \<rparr>"
| "info_of (Dir pm kids) =
     \<lparr> Size = 0, Mode = \<lparr> IsDir = True, ModeSymlink = False, Perm = pm \<rparr> \<rparr>"

fun lookup :: "node \<Rightarrow> path \<Rightarrow> node option" where
  "lookup n [] = Some n"
| "lookup (Dir pm kids) (c # cs) =
     (case map_of kids c of None \<Rightarrow> None | Some k \<Rightarrow> lookup k cs)"
| "lookup n (c # cs) = None"

definition os_Readlink :: "node \<Rightarrow> path \<Rightarrow> error + string" where
  "os_Readlink tree p =
     (case lookup tree p of
        None \<Rightarrow> Inl ENOENT
      | Some (Symlink target) \<Rightarrow> Inr target
      | Some n \<Rightarrow> Inl EINVAL)"

text \<open>\<open>os.Open\<close> of a source file gives the node to read from.\<close>

definition os_Open_source :: "node \<Rightarrow> path \<Rightarrow> error + node" where
  "os_Open_source tree p =
     (case lookup tree p of
        None \<Rightarrow> Inl ENOENT
      | Some (Symlink target) \<Rightarrow> Inl Unresolved
      | Some n \<Rightarrow> Inr n)"

definition os_ReadFile :: "node \<Rightarrow> path \<Rightarrow> error + bytes" where
  "os_ReadFile tree p =
     (case os_Open_source tree p of
        Inl e \<Rightarrow> Inl e
      | Inr (File content pm) \<Rightarrow> Inr content
      | Inr n \<Rightarrow> Inl EISDIR)"

text \<open>
  The destination is a store from paths to entries, with the number of bytes that have
  been written into its files and the number of nonces drawn from \<open>crypto/rand\<close>. The
  root is always a directory. A call that would have to follow a symbolic link of the
  destination is answered by the error \<open>Unresolved\<close>; the umask is zero.
\<close>

datatype entry = EFile bytes nat | ELink string | EDir nat

record world =
  nodes :: "(path, entry) fmap"
  written :: nat
  draws :: nat

definition entry_at :: "world \<Rightarrow> path \<Rightarrow> entry option" where
  "entry_at w p = (if p = [] then Some (EDir 493) else fmlookup (nodes w) p)"

definition has_children :: "world \<Rightarrow> path \<Rightarrow> bool" where
  "has_children w p = fBex (fmdom (nodes w)) (\<lambda>q. q \<noteq> [] \<and> butlast q = p)"

function os_MkdirAll :: "world \<Rightarrow> path \<Rightarrow> nat \<Rightarrow> error + world" where
  "os_MkdirAll w p perm =
     (case entry_at w p of
        Some e \<Rightarrow>
          (case e of
             EDir pm \<Rightarrow> Inr w
           | EFile content pm \<Rightarrow> Inl ENOTDIR
           | ELink target \<Rightarrow> Inl Unresolved)
      | None \<Rightarrow>
          (case os_MkdirAll w (butlast p) perm of
             Inl e \<Rightarrow> Inl e
           | Inr w' \<Rightarrow> Inr (w'\<lparr>nodes := fmupd p (EDir perm) (nodes w')\<rparr>)))"
  by pat_completeness auto
termination
  by (relation "measure (\<lambda>(w, p, perm). length p)")
     (auto simp: entry_at_def split: if_splits)

declare os_MkdirAll.simps [simp del]

definition os_Remove :: "world \<Rightarrow> path \<Rightarrow> error + world" where
  "os_Remove w p =
     (case entry_at w p of
        None \<Rightarrow> Inl ENOENT
      | Some e \<Rightarrow>
          (case e of
             EDir pm \<Rightarrow>
               if p = [] then Inl EBUSY
               else if has_children w p then Inl ENOTEMPTY
               else Inr (w\<lparr>nodes := fmdrop p (nodes w)\<rparr>)
           | EFile content pm \<Rightarrow> Inr (w\<lparr>nodes := fmdrop p (nodes w)\<rparr>)
           | ELink target \<Rightarrow> Inr (w\<lparr>nodes := fmdrop p (nodes w)\<rparr>)))"

text \<open>
  Making a new entry at \<open>p\<close> needs the parent of \<open>p\<close> to be a directory.
\<close>

definition parent_dir :: "world \<Rightarrow> path \<Rightarrow> error option" where
  "parent_dir w p =
     (case entry_at w (butlast p) of
        None \<Rightarrow> Some ENOENT
      | Some e \<Rightarrow>
          (case e of
             EDir pm \<Rightarrow> None
           | EFile content pm \<Rightarrow> Some ENOTDIR
           | ELink target \<Rightarrow> Some Unresolved))"

definition os_Symlink :: "world \<Rightarrow> string \<Rightarrow> path \<Rightarrow> error + world" where
  "os_Symlink w target p =
     (case entry_at w p of
        Some e \<Rightarrow> Inl EEXIST
      | None \<Rightarrow>
          (case parent_dir w p of
             Some e \<Rightarrow> Inl e
           | None \<Rightarrow> Inr (w\<lparr>nodes := fmupd p (ELink target) (nodes w)\<rparr>)))"

text \<open>\<open>os.Create\<close>: open for writing, create with mode 0666 or truncate.\<close>

definition os_Create :: "world \<Rightarrow> path \<Rightarrow> error + world" where
  "os_Create w p =
     (case entry_at w p of
        Some e \<Rightarrow>
          (case e of
             EFile content pm \<Rightarrow> Inr (w\<lparr>nodes := fmupd p (EFile [] pm) (nodes w)\<rparr>)
           | EDir pm \<Rightarrow> Inl EISDIR
           | ELink target \<Rightarrow> Inl Unresolved)
      | None \<Rightarrow>
          (case parent_dir w p of
             Some e \<Rightarrow> Inl e
           | None \<Rightarrow> Inr (w\<lparr>nodes := fmupd p (EFile [] 438) (nodes w)\<rparr>)))"

text \<open>
  \<open>io.Copy(destFile, sourceFile)\<close>: the bytes of the source are written after what the
  destination file holds (nothing, after \<open>os.Create\<close>).
\<close>

definition io_Copy :: "world \<Rightarrow> path \<Rightarrow> node \<Rightarrow> error + world" where
  "io_Copy w dst src =
     (case src of
        File content spm \<Rightarrow>
          (case entry_at w dst of
             Some (EFile old pm) \<Rightarrow>
               Inr (w\<lparr>nodes := fmupd dst (EFile (old @ content) pm) (nodes w),
                      written := written w + length content\<rparr>)
           | _ \<Rightarrow> Inl EIO)
      | Dir pm kids \<Rightarrow> Inl EISDIR
      | Symlink target \<Rightarrow> Inl Unresolved)"

definition os_WriteFile :: "world \<Rightarrow> path \<Rightarrow> bytes \<Rightarrow> nat \<Rightarrow> error + world" where
  "os_WriteFile w p content perm =
     (case entry_at w p of
        Some e \<Rightarrow>
          (case e of
             EFile old pm \<Rightarrow>
               Inr (w\<lparr>nodes := fmupd p (EFile content pm) (nodes w),
                      written := written w + length content\<rparr>)
           | EDir pm \<Rightarrow> Inl EISDIR
           | ELink target \<Rightarrow> Inl Unresolved)
      | None \<Rightarrow>
          (case parent_dir w p of
             Some e \<Rightarrow> Inl e
           | None \<Rightarrow>
               Inr (w\<lparr>nodes := fmupd p (EFile content perm) (nodes w),
                      written := written w + length content\<rparr>)))"

section \<open>pkg/utils: CopyFile\<close>

text \<open>
  A call returns the error, if any, and the world it leaves: what was done before a
  failure stays done.
\<close>

definition CopyFile :: "node \<Rightarrow> world \<Rightarrow> path \<Rightarrow> path \<Rightarrow> error option \<times> world" where
  "CopyFile tree w src dst =
     (case os_Open_source tree src of
        Inl e \<Rightarrow> (Some e, w)
      | Inr sourceFile \<Rightarrow>
          (case os_MkdirAll w (filepath_Dir dst) 493 of
             Inl e \<Rightarrow> (Some e, w)
           | Inr w1 \<Rightarrow>
               (case os_Create w1 dst of
                  Inl e \<Rightarrow> (Some e, w1)
                | Inr w2 \<Rightarrow>
                    (case io_Copy w2 dst sourceFile of
                       Inl e \<Rightarrow> (Some e, w2)
                     | Inr w3 \<Rightarrow> (None, w3)))))"

section \<open>internal/crypto: EncryptFile\<close>

text \<open>
  AES-GCM and the random source are collaborators: \<open>gcm_Seal key nonce plaintext\<close> is the
  sealed text, \<open>rand_Read k\<close> the nonce that the \<open>k\<close>-th draw gives (the random source
  does not fail). The cipher accepts keys of 16, 24 or 32 bytes.
\<close>

record crypto_Manager =
  key :: bytes

record crypto_env =
  gcm_Seal :: "bytes \<Rightarrow> bytes \<Rightarrow> bytes \<Rightarrow> bytes"
  rand_Read :: "nat \<Rightarrow> bytes"

definition EncryptFile ::
  "crypto_env \<Rightarrow> crypto_Manager \<Rightarrow> node \<Rightarrow> world \<Rightarrow> path \<Rightarrow> path \<Rightarrow> error option \<times> world" where
  "EncryptFile env m tree w src dst =
     (case os_ReadFile tree src of
        Inl e \<Rightarrow> (Some (Wrap ''error reading source file'' e), w)
      | Inr plaintext \<Rightarrow>
          if length (key m) \<noteq> 16 \<and> length (key m) \<noteq> 24 \<and> length (key m) \<noteq> 32
          then (Some (Wrap ''error creating cipher'' KeySizeError), w)
          else
            (let nonce = rand_Read env (draws w);
                 w1 = w\<lparr>draws := draws w + 1\<rparr>;
                 ciphertext = nonce @ gcm_Seal env (key m) nonce plaintext
             in case os_WriteFile w1 dst ciphertext 420 of
                  Inl e \<Rightarrow> (Some (Wrap ''error writing encrypted file'' e), w1)
                | Inr w2 \<Rightarrow> (None, w2)))"

section \<open>internal/progress: the tracker\<close>

text \<open>
  The counters are \<open>int64\<close> in the source and \<open>Update\<close> is an atomic addition; the
  sizes of the files of a tree add up to far less than \<open>2^63\<close>, so the model counts in
  unbounded integers. \<open>startTime\<close> is the clock reading handed to \<open>NewTracker\<close>.
\<close>

record Tracker =
  total :: int
  current :: int
  startTime :: nat

definition NewTracker :: "int \<Rightarrow> nat \<Rightarrow> Tracker" where
  "NewTracker n now = \<lparr> total = n, current = 0, startTime = now \<rparr>"

definition Update :: "Tracker \<Rightarrow> int \<Rightarrow> Tracker" where
  "Update t n = t\<lparr>current := current t + n\<rparr>"

section \<open>filepath.Walk\<close>

text \<open>
  The visits of \<open>filepath.Walk\<close> below a path: the entry itself, then for a directory
  its children in order, each with the whole of its subtree.
\<close>

fun walk :: "path \<Rightarrow> node \<Rightarrow> (path \<times> FileInfo) list"
  and walk_kids :: "path \<Rightarrow> (string \<times> node) list \<Rightarrow> (path \<times> FileInfo) list" where
  "walk p (File content pm) = [(p, info_of (File content pm))]"
| "walk p (Symlink target) = [(p, info_of (Symlink target))]"
| "walk p (Dir pm kids) = (p, info_of (Dir pm kids)) # walk_kids p kids"
| "walk_kids p [] = []"
| "walk_kids p (nk # rest) = walk (p @ [fst nk]) (snd nk) @ walk_kids p rest"

text \<open>
  The walk function is called at every visit, in order, with the state it works on;
  the walk stops at the first error it returns. (The two walk functions of
  \<open>SyncDirectory\<close> never return \<open>SkipDir\<close>.)
\<close>

fun visit_all ::
  "(path \<Rightarrow> FileInfo option \<Rightarrow> error option \<Rightarrow> 's \<Rightarrow> error option \<times> 's)
     \<Rightarrow> (path \<times> FileInfo) list \<Rightarrow> 's \<Rightarrow> error option \<times> 's" where
  "visit_all fn [] st = (None, st)"
| "visit_all fn (v # vs) st =
     (case fn (fst v) (Some (snd v)) None st of
        (Some e, st') \<Rightarrow> (Some e, st')
      | (None, st') \<Rightarrow> visit_all fn vs st')"

definition filepath_Walk ::
  "node \<Rightarrow> path \<Rightarrow> (path \<Rightarrow> FileInfo option \<Rightarrow> error option \<Rightarrow> 's \<Rightarrow> error option \<times> 's)
     \<Rightarrow> 's \<Rightarrow> error option \<times> 's" where
  "filepath_Walk tree root fn st =
     (case lookup tree root of
        None \<Rightarrow> fn root None (Some ENOENT) st
      | Some n \<Rightarrow> visit_all fn (walk root n) st)"

section \<open>internal/sync: the manager and SyncDirectory\<close>

record Manager =
  checksumCalc :: Calculator
  blockSize_of :: int64
  ignorePatterns :: "string list"

definition NewManager :: "int64 \<Rightarrow> string list \<Rightarrow> Manager" where
  "NewManager bs patterns =
     \<lparr> checksumCalc = NewCalculator bs, blockSize_of = bs, ignorePatterns = patterns \<rparr>"

text \<open>The walk function of the first walk adds up the sizes.\<close>

definition sizeFn :: "path \<Rightarrow> FileInfo option \<Rightarrow> error option \<Rightarrow> int \<Rightarrow> error option \<times> int" where
  "sizeFn path info err totalSize =
     (case err of
        Some e \<Rightarrow> (Some e, totalSize)
      | None \<Rightarrow>
          (case info of
             None \<Rightarrow> (Some (Panic ''nil pointer dereference''), totalSize)
           | Some i \<Rightarrow>
               if \<not> IsDir (Mode i) \<and> \<not> isSymlink (Mode i)
               then (None, totalSize + Size i)
               else (None, totalSize)))"

text \<open>
  The loop over the ignore patterns in the second walk function: \<open>Inr True\<close> when a
  pattern matches the relative path, \<open>Inl e\<close> when \<open>filepath.Match\<close> fails.
\<close>

fun match_ignore :: "string list \<Rightarrow> string \<Rightarrow> error + bool" where
  "match_ignore [] relativePath = Inr False"
| "match_ignore (pattern # patterns) relativePath =
     (case filepath_Match pattern relativePath of
        Inl e \<Rightarrow> Inl e
      | Inr matched \<Rightarrow> if matched then Inr True else match_ignore patterns relativePath)"

text \<open>The state of the second walk: the world and the tracker.\<close>

record sync_state =
  world_of :: world
  tracker :: Tracker

definition syncFn ::
  "Manager \<Rightarrow> crypto_env \<Rightarrow> node \<Rightarrow> path \<Rightarrow> path \<Rightarrow> crypto_Manager option
     \<Rightarrow> path \<Rightarrow> FileInfo option \<Rightarrow> error option \<Rightarrow> sync_state \<Rightarrow> error option \<times> sync_state" where
  "syncFn m env tree source dest cryptoManager path info err st =
     (case err of
        Some e \<Rightarrow> (Some e, st)
      | None \<Rightarrow>
     (case info of
        None \<Rightarrow> (Some (Panic ''nil pointer dereference''), st)
      | Some i \<Rightarrow>
     (case filepath_Rel source path of
        Inl e \<Rightarrow> (Some (Wrap ''error getting relative path'' e), st)
      | Inr relativePath \<Rightarrow>
     (case match_ignore (ignorePatterns m) (path_string relativePath) of
        Inl e \<Rightarrow> (Some (Wrap ''error matching pattern'' e), st)
      | Inr matched \<Rightarrow>
          if matched then (None, st)
          else
            (let destPath = filepath_Join dest relativePath;
                 mode = Mode i;
                 w = world_of st
             in if IsDir mode then
                  (case os_MkdirAll w destPath (Perm mode) of
                     Inl e \<Rightarrow> (Some (Wrap ''error creating directory'' e), st)
                   | Inr w1 \<Rightarrow> (None, st\<lparr>world_of := w1\<rparr>))
                else if isSymlink mode then
                  (case os_Readlink tree path of
                     Inl e \<Rightarrow> (Some (Wrap ''error reading symlink'' e), st)
                   | Inr link \<Rightarrow>
                       (let w1 = (case os_Remove w destPath of Inl e \<Rightarrow> w | Inr w' \<Rightarrow> w')
                        in case os_MkdirAll w1 (filepath_Dir destPath) 493 of
                             Inl e \<Rightarrow>
                               (Some (Wrap ''error creating parent directory for symlink'' e),
                                st\<lparr>world_of := w1\<rparr>)
                           | Inr w2 \<Rightarrow>
                               (case os_Symlink w2 link destPath of
                                  Inl e \<Rightarrow>
                                    (Some (Wrap ''error creating symlink'' e), st\<lparr>world_of := w2\<rparr>)
                                | Inr w3 \<Rightarrow> (None, st\<lparr>world_of := w3\<rparr>))))
                else
                  (case os_MkdirAll w (filepath_Dir destPath) 493 of
                     Inl e \<Rightarrow> (Some (Wrap ''error creating destination directory'' e), st)
                   | Inr w1 \<Rightarrow>
                       (case
                          (case cryptoManager of
                             Some cm \<Rightarrow>
                               (case EncryptFile env cm tree w1 path destPath of
                                  (Some e, w2) \<Rightarrow> (Some (Wrap ''error encrypting file'' e), w2)
                                | (None, w2) \<Rightarrow> (None, w2))
                           | None \<Rightarrow>
                               (case CopyFile tree w1 path destPath of
                                  (Some e, w2) \<Rightarrow> (Some (Wrap ''error copying file'' e), w2)
                                | (None, w2) \<Rightarrow> (None, w2)))
                        of
                          (Some e, w2) \<Rightarrow> (Some e, st\<lparr>world_of := w2\<rparr>)
                        | (None, w2) \<Rightarrow>
                            (None, st\<lparr>world_of := w2,
                                       tracker := Update (tracker st) (Size i)\<rparr>))))))))"

text \<open>
  \<open>SyncDirectory\<close>: the sizing walk, the tracker, the walk that copies. The tracker is
  local to the call; the model returns it, with the error and the world left behind,
  so that what the call did to it can be stated. \<open>now\<close> is the clock at the call.
\<close>

definition SyncDirectory ::
  "Manager \<Rightarrow> crypto_env \<Rightarrow> node \<Rightarrow> nat \<Rightarrow> path \<Rightarrow> path \<Rightarrow> crypto_Manager option \<Rightarrow> world
     \<Rightarrow> error option \<times> world \<times> Tracker option" where
  "SyncDirectory m env tree now source dest cryptoManager w =
     (case filepath_Walk tree source sizeFn 0 of
        (Some e, totalSize) \<Rightarrow> (Some (Wrap ''error calculating total size'' e), w, None)
      | (None, totalSize) \<Rightarrow>
          (case filepath_Walk tree source (syncFn m env tree source dest cryptoManager)
                  \<lparr> world_of = w, tracker = NewTracker totalSize now \<rparr> of
             (err, st) \<Rightarrow> (err, world_of st, Some (tracker st))))"

section \<open>Source trees and what a run has to copy\<close>



text \<open>
  The entries of a tree, each with its path relative to the root of the tree, in the
  order of the walk.
\<close>

fun entries :: "node \<Rightarrow> (path \<times> node) list"
  and entries_kids :: "(string \<times> node) list \<Rightarrow> (path \<times> node) list" where
  "entries (File content pm) = [([], File content pm)]"
| "entries (Symlink target) = [([], Symlink target)]"
| "entries (Dir pm kids) = ([], Dir pm kids) # entries_kids kids"
| "entries_kids [] = []"
| "entries_kids (nk # rest) =
     map (\<lambda>rk. (fst nk # fst rk, snd rk)) (entries (snd nk)) @ entries_kids rest"

text \<open>
  The bytes of a regular file; the bytes of all regular files of a tree; and the bytes
  of the regular files whose relative path none of the ignore patterns matches, which
  are the files the second walk of \<open>SyncDirectory\<close> copies.
\<close>

fun file_bytes :: "node \<Rightarrow> nat" where
  "file_bytes (File content pm) = length content"
| "file_bytes k = 0"

definition synced_bytes :: "string list \<Rightarrow> (path \<times> node) list \<Rightarrow> nat" where
  "synced_bytes patterns es =
     sum_list (map (\<lambda>rk. if match_ignore patterns (path_string (fst rk)) = Inr False
                          then file_bytes (snd rk) else 0) es)"

definition tree_bytes :: "node \<Rightarrow> nat" where
  "tree_bytes n = sum_list (map (\<lambda>rk. file_bytes (snd rk)) (entries n))"


section \<open>An example\<close>

text \<open>
  A small source tree under \<open>/src\<close>, an empty destination, and collaborators for the
  crypto manager, for trying the definitions on.
\<close>

definition example_env :: crypto_env where
  "example_env = \<lparr> gcm_Seal = (\<lambda>k nonce plaintext. plaintext), rand_Read = (\<lambda>k. replicate 12 0) \<rparr>"

definition empty_world :: world where
  "empty_world = \<lparr> nodes = fmempty, written = 0, draws = 0 \<rparr>"

definition example_source :: node where
  "example_source =
     Dir 493
       [(''.git'', Dir 493 [(''config'', File [1] 420)]),
        (''a'', Dir 493 [(''x.tmp'', File [1, 2, 3] 420)]),
        (''b.txt'', File [4, 5] 420),
        (''l'', Symlink ''b.txt''),
        (''y.tmp'', File [6, 7, 8, 9] 420)]"

definition example_tree :: node where
  "example_tree = Dir 493 [(''src'', example_source)]"




text \<open>A watcher as \<open>NewWatcher(100)\<close> makes it.\<close>

definition example_watcher :: Watcher where
  "example_watcher =
     \<lparr> watcher = \<lparr>watched = [''.''], fs_closed = False\<rparr>, events_chan = OpenChan,
       errors_chan = OpenChan, done_chan = OpenChan, debounceMs = 100 \<rparr>"

section \<open>What the specification says, in its own words\<close>

text \<open>
  The components of a path: the non-empty pieces between separators.
\<close>

fun split_at :: "char \<Rightarrow> string \<Rightarrow> string list" where
  "split_at sep [] = [] # []"
| "split_at sep (c # cs) =
     (if c = sep then [] # split_at sep cs
      else (case split_at sep cs of [] \<Rightarrow> [c] # [] | w # ws \<Rightarrow> (c # w) # ws))"

definition path_components :: "string \<Rightarrow> string list" where
  "path_components path = filter (\<lambda>w. w \<noteq> []) (split_at (CHR ''/'') path)"

text \<open>
  The rule of the specification for the ignore matcher: a pattern matches if it is a glob
  that matches the base name, or if it ends with the separator and the name before the
  separator is one of the components of the path.
\<close>

definition spec_isExcluded :: "string \<Rightarrow> string list \<Rightarrow> bool" where
  "spec_isExcluded path patterns =
     list_ex (\<lambda>pattern.
        filepath_Match pattern (filepath_Base path) = Inr True
        \<or> (strings_HasSuffix pattern ''/''
            \<and> strings_TrimSuffix pattern ''/'' \<in> set (path_components path)))
       patterns"

text \<open>
  The blocks of a file of \<open>len\<close> bytes cut every \<open>B\<close> bytes: their number, and the bytes
  of block \<open>i\<close>.
\<close>

definition block_count :: "nat \<Rightarrow> nat \<Rightarrow> nat" where
  "block_count len B = (len + B - 1) div B"

definition block_bytes :: "nat \<Rightarrow> bytes \<Rightarrow> nat \<Rightarrow> bytes" where
  "block_bytes B F i = take B (drop (i * B) F)"

text \<open>
  The length of the blocks that a calculator cuts: the bytes that one read into its
  buffer takes, the block size up to one gibibyte.
\<close>

definition block_len :: "Calculator \<Rightarrow> nat" where
  "block_len c = min (nat (sint (blockSize c))) maxRW"

section \<open>Properties of the block checksums\<close>

lemma nblocks_step:
  assumes "0 < n" and "rest \<noteq> []"
  shows "(length rest + n - 1) div n = Suc ((length (drop n rest) + n - 1) div n)"
proof -
  from assms(2) have pos: "0 < length rest" by simp
  then have "length rest + n - 1 = (length rest - 1) + n" by linarith
  then have "(length rest + n - 1) div n = ((length rest - 1) + n) div n" by (simp only:)
  also have "\<dots> = Suc ((length rest - 1) div n)" using assms(1) by simp
  finally have l: "(length rest + n - 1) div n = Suc ((length rest - 1) div n)" .
  show ?thesis
  proof (cases "n \<le> length rest")
    case True
    then have "length (drop n rest) + n - 1 = length rest - 1" using assms(1) by simp
    with l show ?thesis by simp
  next
    case False
    then have "(length rest - 1) div n = 0" "length (drop n rest) = 0" by simp_all
    with l assms(1) show ?thesis by simp
  qed
qed

lemma shift_block_map:
  fixes bn :: int and k :: nat
  shows "(\<lambda>i. if bn + 1 \<le> i \<and> i < bn + 1 + int k
                then Some (H (take n (drop (nat (i - (bn + 1)) * n) (drop n rest))))
                else (cs(bn \<mapsto> H (take n rest))) i) =
         (\<lambda>i. if bn \<le> i \<and> i < bn + int (Suc k)
                then Some (H (take n (drop (nat (i - bn) * n) rest))) else cs i)"
proof (rule ext)
  fix i :: int
  consider "i < bn" | "i = bn" | "bn + 1 \<le> i" by linarith
  then show "(if bn + 1 \<le> i \<and> i < bn + 1 + int k
                then Some (H (take n (drop (nat (i - (bn + 1)) * n) (drop n rest))))
                else (cs(bn \<mapsto> H (take n rest))) i) =
         (if bn \<le> i \<and> i < bn + int (Suc k)
                then Some (H (take n (drop (nat (i - bn) * n) rest))) else cs i)"
  proof cases
    case 1
    then show ?thesis by simp
  next
    case 2
    then show ?thesis by simp
  next
    case 3
    then have "nat (i - bn) = Suc (nat (i - (bn + 1)))" by simp
    then have "nat (i - bn) * n = nat (i - (bn + 1)) * n + n" by simp
    then have d: "drop (nat (i - (bn + 1)) * n) (drop n rest) = drop (nat (i - bn) * n) rest"
      by (simp only: drop_drop)
    from 3 have a: "i \<noteq> bn" "bn \<le> i" by simp_all
    have b: "(i < bn + 1 + int k) = (i < bn + int (Suc k))" by auto
    show ?thesis unfolding d b using a 3 by simp
  qed
qed

text \<open>
  With a buffer of \<open>buflen > 0\<close> bytes every read takes \<open>n = min buflen maxRW\<close> bytes, and
  the loop leaves after one round for each block of \<open>n\<close> bytes.
\<close>

lemma block_loop_Readable:
  assumes buf: "0 < buflen" and n: "n = min buflen maxRW"
  shows "block_loop H buflen (Readable rest) bn cs =
     Some (Inr (bn + int ((length rest + n - 1) div n),
           (\<lambda>i. if bn \<le> i \<and> i < bn + int ((length rest + n - 1) div n)
                then Some (H (take n (drop (nat (i - bn) * n) rest))) else cs i)))"
proof (induction "length rest" arbitrary: rest bn cs rule: less_induct)
  case less
  have npos: "0 < n" using buf n by (simp add: maxRW_def)
  show ?case
  proof (cases "rest = []")
    case True
    with buf npos show ?thesis
      by (subst block_loop.simps) (auto simp add: fun_eq_iff)
  next
    case False
    define k where "k = (length (drop n rest) + n - 1) div n"
    from False npos have "length (drop n rest) < length rest" by simp
    then have IH: "block_loop H buflen (Readable (drop n rest)) (bn + 1) (cs(bn \<mapsto> H (take n rest))) =
       Some (Inr (bn + 1 + int k,
           (\<lambda>i. if bn + 1 \<le> i \<and> i < bn + 1 + int k
                then Some (H (take n (drop (nat (i - (bn + 1)) * n) (drop n rest))))
                else (cs(bn \<mapsto> H (take n rest))) i)))"
      unfolding k_def by (rule less)
    have step: "(length rest + n - 1) div n = Suc k"
      unfolding k_def using npos False by (rule nblocks_step)
    have unf: "block_loop H buflen (Readable rest) bn cs =
       block_loop H buflen (Readable (drop n rest)) (bn + 1) (cs(bn \<mapsto> H (take n rest)))"
      using False buf by (subst block_loop.simps) (simp add: n)
    have e: "bn + 1 + int k = bn + int (Suc k)" by simp
    show ?thesis
      unfolding unf IH step shift_block_map by (simp only: e)
  qed
qed

lemma block_loop_Faulty:
  "0 < n \<Longrightarrow> block_loop H n (Faulty rest) bn cs = Some (Inl EIO)"
proof (induction "length rest" arbitrary: rest bn cs rule: less_induct)
  case less
  show ?case
  proof (cases "rest = []")
    case True
    with less(2) show ?thesis by (subst block_loop.simps) simp
  next
    case False
    from less(2) have "0 < min n maxRW" by (simp add: maxRW_def)
    with False have "length (drop (min n maxRW) rest) < length rest" by simp
    then have "block_loop H n (Faulty (drop (min n maxRW) rest)) (bn + 1)
          (cs(bn \<mapsto> H (take (min n maxRW) rest))) = Some (Inl EIO)"
      using less(2) by (rule less(1))
    with False less(2) show ?thesis by (subst block_loop.simps) simp
  qed
qed

lemma block_loop_needs_buffer:
  assumes ret: "block_loop H n f bn cs = Some y"
  shows "n \<noteq> 0"
proof (rule block_loop.raw_induct [where P = "\<lambda>H n f bn cs y. n \<noteq> 0", OF _ ret])
  fix loop :: "(bytes \<Rightarrow> bytes) \<Rightarrow> nat \<Rightarrow> os_File \<Rightarrow> int \<Rightarrow> (int \<rightharpoonup> bytes)
     \<Rightarrow> (error + int \<times> (int \<rightharpoonup> bytes)) option"
  fix H n f bn cs y
  assume IH: "\<And>H n f bn cs y. loop H n f bn cs = Some y \<Longrightarrow> n \<noteq> 0"
    and step: "(case file_Read f n of
        (Inl e, file') \<Rightarrow> Some (Inl e)
      | (Inr None, file') \<Rightarrow> Some (Inr (bn, cs))
      | (Inr (Some chunk), file') \<Rightarrow> loop H n file' (bn + 1) (cs(bn \<mapsto> H chunk))) = Some y"
  show "n \<noteq> 0"
  proof
    assume z: "n = 0"
    then have "file_Read f n = (Inr (Some []), f)" by (cases f) simp_all
    with step have "loop H n f (bn + 1) (cs(bn \<mapsto> H [])) = Some y" by simp
    then have "n \<noteq> 0" by (rule IH)
    with z show False by simp
  qed
qed

lemma block_loop_empty_buffer: "block_loop H 0 f bn cs = None"
proof (cases "block_loop H 0 f bn cs")
  case None
  then show ?thesis .
next
  case (Some y)
  then have "(0::nat) \<noteq> 0" by (rule block_loop_needs_buffer)
  then show ?thesis by simp
qed

lemma concat_blocks:
  "0 < B \<Longrightarrow>
   concat (map (\<lambda>i. take B (drop (i * B) F)) [0..<(length F + B - 1) div B]) = F"
proof (induction "length F" arbitrary: F rule: less_induct)
  case less
  show ?case
  proof (cases "F = []")
    case True
    with less(2) show ?thesis by simp
  next
    case False
    define k where "k = (length (drop B F) + B - 1) div B"
    have step: "(length F + B - 1) div B = Suc k"
      unfolding k_def using less(2) False by (rule nblocks_step)
    from False less(2) have "length (drop B F) < length F" by simp
    then have IH: "concat (map (\<lambda>i. take B (drop (i * B) (drop B F))) [0..<k]) = drop B F"
      unfolding k_def using less(2) by (rule less(1))
    have "[0..<Suc k] = 0 # map Suc [0..<k]"
      by (simp only: upt_conv_Cons [of 0 "Suc k"] map_Suc_upt)
    then have "map (\<lambda>i. take B (drop (i * B) F)) [0..<Suc k] =
        take B F # map (\<lambda>i. take B (drop (i * B) (drop B F))) [0..<k]"
      by (simp add: o_def add.commute)
    with IH show ?thesis unfolding step by simp
  qed
qed

lemma block_length:
  assumes "0 < B" and "i < (length F + B - 1) div B"
  shows "length (take B (drop (i * B) F)) =
     (if Suc i < (length F + B - 1) div B then B
      else if length F mod B = 0 then B else length F mod B)"
proof -
  from assms have "F \<noteq> []" by (cases F) auto
  then obtain m where m: "length F = Suc m" by (cases F) auto
  then have "length F + B - 1 = m + B" by simp
  then have "(length F + B - 1) div B = (m + B) div B" by (simp only:)
  also have "\<dots> = Suc (m div B)" using assms(1) by simp
  finally have n: "(length F + B - 1) div B = Suc (m div B)" .
  have dm: "m = m div B * B + m mod B" by simp
  show ?thesis
  proof (cases "Suc i < (length F + B - 1) div B")
    case True
    with n have "Suc i \<le> m div B" by simp
    then have "Suc i * B \<le> m div B * B" by (rule mult_le_mono1)
    also have "\<dots> \<le> m" by simp
    finally have "i * B + B \<le> m" by simp
    with m True show ?thesis by simp
  next
    case False
    with assms(2) n have i: "i = m div B" by simp
    have "length F - i * B = Suc (m mod B)"
      unfolding i m using dm by linarith
    moreover have "Suc (m mod B) \<le> B" using assms(1) by (simp add: Suc_leI)
    moreover have "length F mod B = (if Suc (m mod B) = B then 0 else Suc (m mod B))"
      unfolding m by (rule mod_Suc)
    ultimately show ?thesis using False by (auto simp: min_def)
  qed
qed

lemma make_bytes_ok:
  "0 \<le> n \<Longrightarrow> nat n \<le> maxAlloc \<Longrightarrow> nat n \<le> avail \<Longrightarrow> make_bytes avail n = Inr (nat n)"
  by (auto simp: make_bytes_def)

text \<open>
  Claim C5 fails for a block size that \<open>make\<close> cannot allocate: with \<open>blockSize = 2^62\<close>
  the call panics when it makes the buffer, whatever the file and however much memory
  the machine has, and returns no mapping.
\<close>

theorem CalculateBlockChecksum_blocks_fails_at_huge_blockSize:
  "CalculateBlockChecksum id (2 ^ 62) (NewCalculator (2 ^ 62)) [''f'' \<mapsto> Readable [1, 2, 3]] ''f''
     = Some (Inl (Panic ''runtime error: makeslice: len out of range''))"
  by (simp add: CalculateBlockChecksum_def os_Open_def NewCalculator_def make_bytes_def
      maxAlloc_def)

text \<open>
  Claim C5, amended. For a file with contents \<open>F\<close> that reads without a fault and a
  block size \<open>B > 0\<close> that \<open>make\<close> can allocate (at most \<open>maxAlloc\<close> and at most the
  memory available), \<open>CalculateBlockChecksum\<close> returns a mapping. One read takes
  \<open>block_len = min B 2^30\<close> bytes, which is \<open>B\<close> for every \<open>B\<close> up to one gibibyte. The
  keys of the mapping are exactly the block indices \<open>0, \<dots>, \<lceil>len F / block_len\<rceil> - 1\<close>;
  the value at index \<open>i\<close> is the hash of block \<open>i\<close> alone, the bytes \<open>i * block_len, \<dots>\<close>
  of \<open>F\<close>; every block has \<open>block_len\<close> bytes except the last, which has
  \<open>len F mod block_len\<close> bytes (\<open>block_len\<close> when that is zero); the blocks put one after
  the other are \<open>F\<close>; and an empty file gives the empty mapping, not an error.
\<close>

theorem CalculateBlockChecksum_blocks:
  assumes B: "0 < sint (blockSize c)"
    and alloc: "nat (sint (blockSize c)) \<le> maxAlloc" "nat (sint (blockSize c)) \<le> avail"
    and opened: "d filepath = Some (Readable F)"
  shows "\<exists>m. CalculateBlockChecksum sha256 avail c d filepath = Some (Inr m)
    \<and> dom m = {0 ..< int (block_count (length F) (block_len c))}
    \<and> (\<forall>i < block_count (length F) (block_len c).
          m (int i) = Some (sha256 (block_bytes (block_len c) F i))
          \<and> length (block_bytes (block_len c) F i) =
              (if Suc i < block_count (length F) (block_len c) then block_len c
               else if length F mod block_len c = 0 then block_len c
               else length F mod block_len c))
    \<and> concat (map (block_bytes (block_len c) F)
          [0 ..< block_count (length F) (block_len c)]) = F
    \<and> (F = [] \<longrightarrow> m = Map.empty)
    \<and> (sint (blockSize c) \<le> 2 ^ 30 \<longrightarrow> block_len c = nat (sint (blockSize c)))"
proof -
  define n where "n = block_len c"
  define k where "k = block_count (length F) n"
  define m where "m = (\<lambda>i::int. if 0 \<le> i \<and> i < 0 + int k
      then Some (sha256 (take n (drop (nat (i - 0) * n) F))) else Map.empty i)"
  from B have buf: "0 < nat (sint (blockSize c))" by simp
  have nmin: "n = min (nat (sint (blockSize c))) maxRW" by (simp add: n_def block_len_def)
  from B have n: "0 < n" by (simp add: nmin maxRW_def)
  have loop: "block_loop sha256 (nat (sint (blockSize c))) (Readable F) 0 Map.empty =
      Some (Inr (0 + int k, m))"
    unfolding m_def k_def block_count_def using buf nmin by (rule block_loop_Readable)
  from B have "0 \<le> sint (blockSize c)" by simp
  then have mk: "make_bytes avail (sint (blockSize c)) = Inr (nat (sint (blockSize c)))"
    using alloc by (rule make_bytes_ok)
  from opened loop mk have ret: "CalculateBlockChecksum sha256 avail c d filepath = Some (Inr m)"
    by (simp add: CalculateBlockChecksum_def os_Open_def)
  have dom: "dom m = {0 ..< int k}"
    by (auto simp: m_def dom_def)
  have look: "m (int i) = Some (sha256 (block_bytes n F i))" if "i < k" for i
    using that by (simp add: m_def block_bytes_def)
  have len: "length (block_bytes n F i) =
      (if Suc i < k then n else if length F mod n = 0 then n else length F mod n)"
    if "i < k" for i
    using n that unfolding block_bytes_def k_def block_count_def by (rule block_length)
  have cat: "concat (map (block_bytes n F) [0 ..< k]) = F"
    using concat_blocks [OF n, of F] by (simp add: block_bytes_def [abs_def] k_def block_count_def)
  have emp: "m = Map.empty" if "F = []"
    using that n by (auto simp: m_def k_def block_count_def fun_eq_iff)
  have small: "n = nat (sint (blockSize c))" if "sint (blockSize c) \<le> 2 ^ 30"
    using that B by (simp add: nmin maxRW_def min_def)
  from ret dom look len cat emp small show ?thesis
    unfolding n_def [symmetric] k_def [symmetric] by blast
qed

text \<open>The theorem at a file of three bytes cut into blocks of two.\<close>

theorem CalculateBlockChecksum_blocks_witness:
  "\<exists>m. CalculateBlockChecksum id 4096 (NewCalculator 2) [''f'' \<mapsto> Readable [1, 2, 3]] ''f''
          = Some (Inr m)
     \<and> dom m = {0 ..< 2} \<and> m 0 = Some [1, 2] \<and> m 1 = Some [3]"
proof -
  have c: "0 < sint (blockSize (NewCalculator 2))" by (simp add: NewCalculator_def)
  have a: "nat (sint (blockSize (NewCalculator 2))) \<le> maxAlloc"
    "nat (sint (blockSize (NewCalculator 2))) \<le> 4096"
    by (simp_all add: NewCalculator_def maxAlloc_def)
  have d: "[''f'' \<mapsto> Readable [1, 2, 3]] ''f'' = Some (Readable [1, 2, 3])" by simp
  have n: "block_len (NewCalculator 2) = 2"
    by (simp add: block_len_def NewCalculator_def maxRW_def)
  have k: "block_count (length [1, 2, 3 :: 8 word]) 2 = 2"
    by (simp add: block_count_def)
  from CalculateBlockChecksum_blocks
    [where c = "NewCalculator 2" and d = "[''f'' \<mapsto> Readable [1, 2, 3]]" and filepath = "''f''"
       and F = "[1, 2, 3]" and ?sha256.0 = id and avail = 4096, OF c a d]
  obtain m where
    m: "CalculateBlockChecksum id 4096 (NewCalculator 2) [''f'' \<mapsto> Readable [1, 2, 3]] ''f''
          = Some (Inr m)"
       "dom m = {0 ..< int 2}"
       "\<forall>i<2. m (int i) = Some (id (block_bytes 2 [1, 2, 3] i))"
    unfolding n k by blast
  have "(0::nat) < 2" "(1::nat) < 2" by simp_all
  with m(3) have "m (int 0) = Some (id (block_bytes 2 [1, 2, 3] 0))"
    "m (int 1) = Some (id (block_bytes 2 [1, 2, 3] 1))"
    by blast+
  then have "m 0 = Some [1, 2]" "m 1 = Some [3]"
    by (simp_all add: block_bytes_def)
  with m(1,2) show ?thesis by auto
qed

text \<open>
  Claim C9 fails at a block size of at least one that \<open>make\<close> cannot allocate: with
  \<open>blockSize = 2^62\<close> the call does not return but panics, as it does for the negative
  block size \<open>-1\<close>, which in turn ends the call although it is below one.
\<close>

theorem CalculateBlockChecksum_panics_although_blockSize_positive:
  "1 \<le> sint (blockSize (NewCalculator (2 ^ 62)))
   \<and> CalculateBlockChecksum id (2 ^ 62) (NewCalculator (2 ^ 62)) [''g'' \<mapsto> Readable [7]] ''g''
       = Some (Inl (Panic ''runtime error: makeslice: len out of range''))
   \<and> CalculateBlockChecksum id (2 ^ 62) (NewCalculator (- 1)) [''g'' \<mapsto> Readable [7]] ''g''
       = Some (Inl (Panic ''runtime error: makeslice: len out of range''))"
  by (simp add: CalculateBlockChecksum_def os_Open_def NewCalculator_def make_bytes_def
      maxAlloc_def)

text \<open>
  Claim C9, amended. For a file that can be opened, \<open>CalculateBlockChecksum\<close> returns (a
  mapping or a read error) exactly when the block size is at least one and \<open>make\<close> can
  allocate it. With block size zero every read returns no bytes and no end of file, and
  the call never returns; with a negative block size or one above \<open>maxAlloc\<close> the call
  panics when it makes the buffer, before the loop, and with a block size within
  \<open>maxAlloc\<close> for which the memory does not suffice the program stops there. With a block
  size of at least one that can be allocated, the call returns a mapping with one key
  for each round of the loop, and the loop leaves with \<open>blockNum\<close> equal to the number of
  blocks: one round for each block of \<open>block_len\<close> bytes, and the read after the last
  block reports the end of the file. \<open>NewCalculator\<close> stores any block size it is given.
\<close>

theorem CalculateBlockChecksum_terminates_iff:
  assumes opened: "d filepath = Some f"
  shows "((\<exists>r. CalculateBlockChecksum sha256 avail c d filepath = Some r
              \<and> (\<forall>msg. r \<noteq> Inl (Panic msg)) \<and> (\<forall>msg. r \<noteq> Inl (Fatal msg)))
            \<longleftrightarrow> 1 \<le> sint (blockSize c) \<and> sint (blockSize c) \<le> int (min avail maxAlloc))
    \<and> (blockSize c = 0 \<longrightarrow> CalculateBlockChecksum sha256 avail c d filepath = None)
    \<and> (sint (blockSize c) < 0 \<or> int maxAlloc < sint (blockSize c) \<longrightarrow>
          CalculateBlockChecksum sha256 avail c d filepath =
            Some (Inl (Panic ''runtime error: makeslice: len out of range'')))
    \<and> (0 \<le> sint (blockSize c) \<and> sint (blockSize c) \<le> int maxAlloc
          \<and> int avail < sint (blockSize c) \<longrightarrow>
          CalculateBlockChecksum sha256 avail c d filepath =
            Some (Inl (Fatal ''runtime: out of memory'')))
    \<and> (1 \<le> sint (blockSize c) \<and> sint (blockSize c) \<le> int (min avail maxAlloc) \<longrightarrow>
         (\<forall>F. f = Readable F \<longrightarrow>
          (\<exists>m. CalculateBlockChecksum sha256 avail c d filepath = Some (Inr m)
             \<and> dom m = {0 ..< int (block_count (length F) (block_len c))}
             \<and> block_loop sha256 (nat (sint (blockSize c))) f 0 Map.empty =
                 Some (Inr (int (block_count (length F) (block_len c)), m)))))
    \<and> blockSize (NewCalculator b) = b"
proof -
  let ?B = "sint (blockSize c)"
  let ?R = "CalculateBlockChecksum sha256 avail c d filepath"
  have zero: "?R = None" if "blockSize c = 0"
    using that opened
    by (simp add: CalculateBlockChecksum_def os_Open_def make_bytes_def block_loop_empty_buffer)
  have big: "?R = Some (Inl (Panic ''runtime error: makeslice: len out of range''))"
    if "?B < 0 \<or> int maxAlloc < ?B"
    using that opened by (auto simp add: CalculateBlockChecksum_def os_Open_def make_bytes_def)
  have oom: "?R = Some (Inl (Fatal ''runtime: out of memory''))"
    if "0 \<le> ?B \<and> ?B \<le> int maxAlloc \<and> int avail < ?B"
    using that opened by (auto simp add: CalculateBlockChecksum_def os_Open_def make_bytes_def)
  have mk: "make_bytes avail ?B = Inr (nat ?B)" if "1 \<le> ?B \<and> ?B \<le> int (min avail maxAlloc)"
    using that by (intro make_bytes_ok) auto
  have iters: "\<exists>m. ?R = Some (Inr m)
             \<and> dom m = {0 ..< int (block_count (length F) (block_len c))}
             \<and> block_loop sha256 (nat ?B) f 0 Map.empty =
                 Some (Inr (int (block_count (length F) (block_len c)), m))"
    if ok: "1 \<le> ?B \<and> ?B \<le> int (min avail maxAlloc)" and f: "f = Readable F" for F
  proof -
    define n where "n = block_len c"
    define k where "k = block_count (length F) n"
    define m where "m = (\<lambda>i::int. if 0 \<le> i \<and> i < 0 + int k
        then Some (sha256 (take n (drop (nat (i - 0) * n) F))) else Map.empty i)"
    from ok have buf: "0 < nat ?B" by simp
    have nmin: "n = min (nat ?B) maxRW" by (simp add: n_def block_len_def)
    have loop: "block_loop sha256 (nat ?B) (Readable F) 0 Map.empty = Some (Inr (0 + int k, m))"
      unfolding m_def k_def block_count_def using buf nmin by (rule block_loop_Readable)
    with opened mk [OF ok] f have ret: "?R = Some (Inr m)"
      by (simp add: CalculateBlockChecksum_def os_Open_def)
    have dom: "dom m = {0 ..< int k}" by (auto simp: m_def dom_def)
    from ret dom loop f show ?thesis
      unfolding n_def [symmetric] k_def [symmetric] by simp
  qed
  have pos: "\<exists>r. ?R = Some r \<and> (\<forall>msg. r \<noteq> Inl (Panic msg)) \<and> (\<forall>msg. r \<noteq> Inl (Fatal msg))"
    if ok: "1 \<le> ?B \<and> ?B \<le> int (min avail maxAlloc)"
  proof (cases f)
    case (Readable F)
    with iters [OF ok] show ?thesis by auto
  next
    case (Faulty F)
    from ok have n: "0 < nat ?B" by simp
    from Faulty opened mk [OF ok] block_loop_Faulty [OF n, of sha256 F 0 Map.empty]
    show ?thesis
      by (simp add: CalculateBlockChecksum_def os_Open_def)
  qed
  have iff: "(\<exists>r. ?R = Some r \<and> (\<forall>msg. r \<noteq> Inl (Panic msg)) \<and> (\<forall>msg. r \<noteq> Inl (Fatal msg)))
            \<longleftrightarrow> 1 \<le> ?B \<and> ?B \<le> int (min avail maxAlloc)"
  proof
    assume "\<exists>r. ?R = Some r \<and> (\<forall>msg. r \<noteq> Inl (Panic msg)) \<and> (\<forall>msg. r \<noteq> Inl (Fatal msg))"
    then obtain r where r: "?R = Some r"
      "\<forall>msg. r \<noteq> Inl (Panic msg)" "\<forall>msg. r \<noteq> Inl (Fatal msg)" by blast
    show "1 \<le> ?B \<and> ?B \<le> int (min avail maxAlloc)"
    proof (rule ccontr)
      assume "\<not> (1 \<le> ?B \<and> ?B \<le> int (min avail maxAlloc))"
      then consider "?B = 0" | "?B < 0 \<or> int maxAlloc < ?B"
        | "0 \<le> ?B \<and> ?B \<le> int maxAlloc \<and> int avail < ?B"
        by (cases "avail \<le> maxAlloc") (simp_all add: min_def, linarith+)
      then show False
      proof cases
        case 1
        then have "word_of_int (sint (blockSize c)) = (word_of_int 0 :: 64 word)"
          by (simp only:)
        then have "blockSize c = 0" by simp
        with zero r show False by simp
      next
        case 2
        with big r show False by simp
      next
        case 3
        with oom r show False by simp
      qed
    qed
  next
    assume "1 \<le> ?B \<and> ?B \<le> int (min avail maxAlloc)"
    then show "\<exists>r. ?R = Some r \<and> (\<forall>msg. r \<noteq> Inl (Panic msg)) \<and> (\<forall>msg. r \<noteq> Inl (Fatal msg))"
      by (rule pos)
  qed
  have new: "blockSize (NewCalculator b) = b" by (simp add: NewCalculator_def)
  from iff zero big oom iters new show ?thesis by blast
qed

text \<open>The theorem at block sizes zero and one.\<close>

theorem CalculateBlockChecksum_terminates_iff_witness:
  "CalculateBlockChecksum id 4096 (NewCalculator 0) [''f'' \<mapsto> Readable [1, 2, 3]] ''f'' = None
   \<and> (\<exists>m. CalculateBlockChecksum id 4096 (NewCalculator 1) [''f'' \<mapsto> Readable [1, 2, 3]] ''f''
           = Some (Inr m) \<and> dom m = {0 ..< 3})"
proof -
  have d: "[''f'' \<mapsto> Readable [1, 2, 3 :: 8 word]] ''f'' = Some (Readable [1, 2, 3])" by simp
  from CalculateBlockChecksum_terminates_iff
    [where d = "[''f'' \<mapsto> Readable [1, 2, 3]]" and filepath = "''f''" and f = "Readable [1, 2, 3]"
       and ?sha256.0 = id and c = "NewCalculator 0" and avail = 4096, OF d]
  have "CalculateBlockChecksum id 4096 (NewCalculator 0) [''f'' \<mapsto> Readable [1, 2, 3]] ''f'' = None"
    by (simp add: NewCalculator_def)
  moreover have ok: "1 \<le> sint (blockSize (NewCalculator 1))
      \<and> sint (blockSize (NewCalculator 1)) \<le> int (min 4096 maxAlloc)"
    by (simp add: NewCalculator_def maxAlloc_def)
  have k: "block_count (length [1, 2, 3 :: 8 word]) (block_len (NewCalculator 1)) = 3"
    by (simp add: block_count_def block_len_def NewCalculator_def maxRW_def)
  from CalculateBlockChecksum_terminates_iff
    [where d = "[''f'' \<mapsto> Readable [1, 2, 3]]" and filepath = "''f''" and f = "Readable [1, 2, 3]"
       and ?sha256.0 = id and c = "NewCalculator 1" and avail = 4096, OF d]
    ok
  have "\<exists>m. CalculateBlockChecksum id 4096 (NewCalculator 1) [''f'' \<mapsto> Readable [1, 2, 3]] ''f''
           = Some (Inr m) \<and> dom m = {0 ..< int (block_count (length [1, 2, 3 :: 8 word])
               (block_len (NewCalculator 1)))}"
    by blast
  then have "\<exists>m. CalculateBlockChecksum id 4096 (NewCalculator 1) [''f'' \<mapsto> Readable [1, 2, 3]] ''f''
           = Some (Inr m) \<and> dom m = {0 ..< 3}"
    unfolding k by simp
  ultimately show ?thesis by simp
qed

section \<open>Properties of the watcher\<close>

text \<open>
  Claim C10. \<open>Close\<close> is not idempotent: on a watcher left by a first call of \<open>Close\<close>,
  a second call panics, because it closes the channel \<open>done\<close> again.
\<close>

theorem Close_twice_panics:
  assumes "Watcher_Close w = Inr (w', err)"
  shows "Watcher_Close w' = Inl (Panic ''close of closed channel'')"
  using assms
  by (auto simp: Watcher_Close_def chan_close_def fsnotify_Close_def split: chan.splits)

text \<open>The theorem at a watcher fresh from \<open>NewWatcher\<close>.\<close>

theorem Close_twice_panics_witness:
  "\<exists>w w' err. NewWatcher (Inr \<lparr>watched = [], fs_closed = False\<rparr>) 100 = Inr w
     \<and> Watcher_Close w = Inr (w', err)
     \<and> Watcher_Close w' = Inl (Panic ''close of closed channel'')"
proof -
  define w where "w = \<lparr> watcher = \<lparr>watched = [], fs_closed = False\<rparr>, events_chan = OpenChan,
      errors_chan = OpenChan, done_chan = OpenChan, debounceMs = 100 \<rparr>"
  define w' where "w' = w\<lparr>done_chan := ClosedChan, watcher := \<lparr>watched = [], fs_closed = True\<rparr>\<rparr>"
  have new: "NewWatcher (Inr \<lparr>watched = [], fs_closed = False\<rparr>) 100 = Inr w"
    by (simp add: NewWatcher_def w_def)
  have first: "Watcher_Close w = Inr (w', None)"
    by (simp add: Watcher_Close_def chan_close_def fsnotify_Close_def w_def w'_def)
  from Close_twice_panics [OF first] new first show ?thesis by blast
qed














text \<open>
  The bound on the gaps is strict for a reason. A notification that comes exactly
  \<open>debounceMs\<close> after the one before it finds the timer at its deadline: the runtime may
  have let the timer expire already, and \<open>select\<close> may take the tick first. Then the loop
  sends the event of the first notification, and later a second event.
\<close>

lemma notification_at_the_deadline_may_come_late:
  "map_option sent_events
     (processEvents example_watcher 0
        [(0, FsEvent ''a.txt'' ''CREATE''), (100, TimerExpires), (100, TimerTick),
         (100, FsEvent ''a.txt'' ''WRITE''), (200, TimerExpires), (200, TimerTick)]) =
   Some [(100, \<lparr> Path = ''a.txt'', Operation = ''CREATE'', Time = 0 \<rparr>),
         (200, \<lparr> Path = ''a.txt'', Operation = ''WRITE'', Time = 100 \<rparr>)]"
  by (simp add: processEvents_def loop_start_def loop_step_def example_watcher_def)

section \<open>Properties of the ignore rules\<close>

text \<open>
  \<open>Match\<close> reads the name by runes where the pattern has \<open>?\<close> or a character class: the
  two bytes of \<open>U+00E9\<close> are one character for \<open>?\<close> and lie in the class from \<open>U+00E0\<close>
  to \<open>U+00FF\<close>. After a chunk that does not match, \<open>Match\<close> does not look at the rest of
  the pattern: \<open>b*[\<close> is malformed only for a name that begins with \<open>b\<close>.
\<close>

lemma Match_reads_runes:
  "filepath_Match ''?'' [CHR 0xC3, CHR 0xA9] = Inr True
   \<and> filepath_Match ''??'' [CHR 0xC3, CHR 0xA9] = Inr False
   \<and> filepath_Match [CHR ''['', CHR 0xC3, CHR 0xA0, CHR ''-'', CHR 0xC3, CHR 0xBF, CHR '']'']
         [CHR 0xC3, CHR 0xA9] = Inr True"
  by (simp add: filepath_Match.simps scanChunk_def utf8_DecodeRuneInString.simps Let_def
      class_ranges.simps getEsc_def RuneError_def)

lemma Match_stops_at_failed_chunk:
  "filepath_Match ''b*['' ''.'' = Inr False
   \<and> filepath_Match ''b*['' ''b.txt'' = Inl ErrBadPattern
   \<and> filepath_Match ''z*['' ''b.txt'' = Inr False
   \<and> filepath_Match ''['' ''.'' = Inl ErrBadPattern"
  by code_simp

text \<open>
  Whatever the rule of the specification excludes, \<open>IsPathExcluded\<close> excludes: a
  component of the path occurs in the path. The converse fails.
\<close>

lemma strings_Contains_iff:
  "strings_Contains s x \<longleftrightarrow> (\<exists>pre post. s = pre @ x @ post)"
proof (induction s)
  case Nil
  then show ?case by auto
next
  case (Cons c s)
  show ?case
  proof
    assume "strings_Contains (c # s) x"
    then consider "prefix x (c # s)" | "strings_Contains s x" by auto
    then show "\<exists>pre post. c # s = pre @ x @ post"
    proof cases
      case 1
      then obtain post where "c # s = x @ post" by (auto simp: prefix_def)
      then have "c # s = [] @ x @ post" by simp
      then show ?thesis by blast
    next
      case 2
      with Cons.IH obtain pre post where "s = pre @ x @ post" by blast
      then have "c # s = (c # pre) @ x @ post" by simp
      then show ?thesis by blast
    qed
  next
    assume "\<exists>pre post. c # s = pre @ x @ post"
    then obtain pre post where e: "c # s = pre @ x @ post" by blast
    show "strings_Contains (c # s) x"
    proof (cases pre)
      case Nil
      with e have "prefix x (c # s)" by (simp add: prefix_def)
      then show ?thesis by simp
    next
      case (Cons d pre')
      with e have "s = pre' @ x @ post" by simp
      with Cons.IH have "strings_Contains s x" by blast
      then show ?thesis by simp
    qed
  qed
qed

lemma split_at_first: "split_at sep s \<noteq> [] \<and> prefix (hd (split_at sep s)) s"
  by (induction s) (auto split: list.splits)

lemma split_at_piece:
  "w \<in> set (split_at sep s) \<Longrightarrow> \<exists>pre post. s = pre @ w @ post"
proof (induction s arbitrary: w)
  case Nil
  then show ?case by simp
next
  case (Cons c s)
  from split_at_first [of sep s] obtain w0 ws where
    sp: "split_at sep s = w0 # ws" and pre: "prefix w0 s"
    by (cases "split_at sep s") auto
  show ?case
  proof (cases "c = sep")
    case True
    with Cons.prems consider "w = []" | "w \<in> set (split_at sep s)" by auto
    then show ?thesis
    proof cases
      case 1
      then have "c # s = [] @ w @ (c # s)" by simp
      then show ?thesis by blast
    next
      case 2
      from Cons.IH [OF this] obtain p q where "s = p @ w @ q" by blast
      then have "c # s = (c # p) @ w @ q" by simp
      then show ?thesis by blast
    qed
  next
    case False
    with Cons.prems sp consider "w = c # w0" | "w \<in> set ws" by auto
    then show ?thesis
    proof cases
      case 1
      from pre obtain q where "s = w0 @ q" by (auto simp: prefix_def)
      with 1 have "c # s = [] @ w @ q" by simp
      then show ?thesis by blast
    next
      case 2
      with sp have "w \<in> set (split_at sep s)" by simp
      from Cons.IH [OF this] obtain p q where "s = p @ w @ q" by blast
      then have "c # s = (c # p) @ w @ q" by simp
      then show ?thesis by blast
    qed
  qed
qed

lemma component_occurs:
  "w \<in> set (path_components path) \<Longrightarrow> strings_Contains path w"
  unfolding path_components_def strings_Contains_iff
  by (auto dest: split_at_piece)

lemma spec_isExcluded_imp_IsPathExcluded:
  "spec_isExcluded path patterns \<Longrightarrow> IsPathExcluded path patterns"
  unfolding spec_isExcluded_def
  by (induction patterns) (auto dest: component_occurs)

text \<open>
  Claim C3. \<open>IsPathExcluded\<close> tests a directory pattern with \<open>strings.Contains\<close> on the
  whole path, so the name needs only to occur somewhere in the path, not to be one of
  its components: the pattern \<open>.git/\<close> excludes the file \<open>.gitignore\<close>, and the pattern
  \<open>build/\<close> the file \<open>rebuild.sh\<close>, which the rule of the specification does not
  exclude. The three examples of the specification hold.
\<close>

theorem IsPathExcluded_substring_not_component:
  "IsPathExcluded ''.gitignore'' [''.git/'']
   \<and> \<not> spec_isExcluded ''.gitignore'' [''.git/'']
   \<and> path_components ''.gitignore'' = [''.gitignore'']
   \<and> filepath_Match ''.git/'' (filepath_Base ''.gitignore'') = Inr False
   \<and> IsPathExcluded ''rebuild.sh'' [''build/'']
   \<and> \<not> spec_isExcluded ''rebuild.sh'' [''build/'']
   \<and> IsPathExcluded ''build.tmp'' [''*.tmp'']
   \<and> \<not> IsPathExcluded ''src/main.go'' [''*.tmp'']
   \<and> IsPathExcluded ''a/.git/x'' [''.git/'']"
  by code_simp

section \<open>Properties of SyncDirectory\<close>

subsection \<open>The destination store\<close>




lemma world_nodes_same: "w\<lparr>nodes := nodes w\<rparr> = w"
  by simp

lemma entry_at_root: "entry_at w [] = Some (EDir 493)"
  by (simp add: entry_at_def)



lemma entry_at_written [simp]: "entry_at (w\<lparr>written := n\<rparr>) q = entry_at w q"
  by (simp add: entry_at_def)




definition mirrored :: "world \<Rightarrow> path \<Rightarrow> node \<Rightarrow> bool" where
  "mirrored w q k =
     (case k of
        Dir pm kids \<Rightarrow> (\<exists>dpm. entry_at w q = Some (EDir dpm))
      | Symlink target \<Rightarrow>
          entry_at w q = Some (ELink target) \<and> (\<exists>dpm. entry_at w (butlast q) = Some (EDir dpm))
      | File content pm \<Rightarrow>
          (\<exists>fpm. entry_at w q = Some (EFile content fpm))
          \<and> (\<exists>dpm. entry_at w (butlast q) = Some (EDir dpm)))"




lemma syncFn_bad_pattern:
  assumes "filepath_Rel source path = Inr rel"
    and "match_ignore (ignorePatterns m) (path_string rel) = Inl e"
  shows "syncFn m env tree source dest cm path (Some i) None st =
         (Some (Wrap ''error matching pattern'' e), st)"
  using assms by (simp add: syncFn_def)



















definition visits_of :: "path \<Rightarrow> (path \<times> node) list \<Rightarrow> (path \<times> FileInfo) list" where
  "visits_of p es = map (\<lambda>rk. (p @ fst rk, info_of (snd rk))) es"

lemma walk_entries:
  "walk p n = visits_of p (entries n)"
  "walk_kids p kids = visits_of p (entries_kids kids)"
proof (induction p n and p kids rule: walk_walk_kids.induct)
  case (5 p nk rest)
  then show ?case by (simp add: visits_of_def o_def)
qed (simp_all add: visits_of_def)







lemma common_prefix_append: "common_prefix base (base @ rel) = length base"
  by (induction base) auto

lemma Rel_below: "filepath_Rel source (source @ rel) = Inr rel"
  by (simp add: filepath_Rel_def common_prefix_append)





lemma visits_of_simps:
  "visits_of p [] = []"
  "visits_of p (rk # es) = (p @ fst rk, info_of (snd rk)) # visits_of p es"
  by (simp_all add: visits_of_def)




definition ready :: "Manager \<Rightarrow> path \<Rightarrow> world \<Rightarrow> (path \<times> node) list \<Rightarrow> bool" where
  "ready m dest w es \<longleftrightarrow>
     (\<forall>rk \<in> set es.
        (\<exists>b. match_ignore (ignorePatterns m) (path_string (fst rk)) = Inr b)
      \<and> (match_ignore (ignorePatterns m) (path_string (fst rk)) = Inr False
           \<longrightarrow> mirrored w (dest @ fst rk) (snd rk)))"

definition bump :: "sync_state \<Rightarrow> nat \<Rightarrow> sync_state" where
  "bump st n =
     st\<lparr>world_of := (world_of st)\<lparr>written := written (world_of st) + n\<rparr>,
        tracker := (tracker st)\<lparr>current := current (tracker st) + int n\<rparr>\<rparr>"

lemma bump_simps [simp]:
  "bump st 0 = st"
  "bump (bump st a) b = bump st (a + b)"
  "nodes (world_of (bump st n)) = nodes (world_of st)"
  "entry_at (world_of (bump st n)) q = entry_at (world_of st) q"
  by (simp_all add: bump_def entry_at_def)


lemma mirrored_bump [simp]: "mirrored (world_of (bump st n)) q k = mirrored (world_of st) q k"
  by (cases k) (simp_all add: mirrored_def)

lemma ready_bump [simp]: "ready m dest (world_of (bump st n)) es = ready m dest (world_of st) es"
  by (simp add: ready_def)

lemma synced_bytes_simps [simp]:
  "synced_bytes ps [] = 0"
  "synced_bytes ps (rk # es) =
     (if match_ignore ps (path_string (fst rk)) = Inr False then file_bytes (snd rk) else 0)
     + synced_bytes ps es"
  by (simp_all add: synced_bytes_def)





lemma sizeFn_step:
  "sizeFn p (Some (info_of k)) None acc = (None, acc + int (file_bytes k))"
  by (cases k) (simp_all add: sizeFn_def isSymlink_def)

lemma size_walk:
  "visit_all sizeFn (visits_of source es) acc =
     (None, acc + int (sum_list (map (\<lambda>rk. file_bytes (snd rk)) es)))"
  by (induction es arbitrary: acc) (simp_all add: visits_of_simps sizeFn_step)


lemma SyncDirectory_unfold:
  assumes "lookup tree source = Some n"
  shows "SyncDirectory m env tree now source dest cm w =
     (case visit_all (syncFn m env tree source dest cm) (visits_of source (entries n))
             \<lparr> world_of = w, tracker = NewTracker (int (tree_bytes n)) now \<rparr> of
        (err, st) \<Rightarrow> (err, world_of st, Some (tracker st)))"
  using assms
  by (simp add: SyncDirectory_def filepath_Walk_def walk_entries size_walk tree_bytes_def)





subsection \<open>The ignore patterns in SyncDirectory\<close>

text \<open>
  Claim C2. \<open>SyncDirectory\<close> does not call \<open>IsPathExcluded\<close>: it matches each pattern
  with \<open>filepath.Match\<close> against the whole relative path. With the patterns of the
  README, \<open>*.tmp\<close> and \<open>.git/\<close>, the ignore matcher excludes \<open>a/x.tmp\<close> and
  \<open>.git/config\<close>, but \<open>SyncDirectory\<close> copies both to the destination; only \<open>y.tmp\<close>,
  at the top of the tree, is skipped.
\<close>

theorem SyncDirectory_ignores_by_whole_relative_path:
  "IsPathExcluded ''a/x.tmp'' [''*.tmp'', ''.git/'']
   \<and> IsPathExcluded ''.git/config'' [''*.tmp'', ''.git/'']
   \<and> fst (SyncDirectory (NewManager 4096 [''*.tmp'', ''.git/'']) example_env example_tree 0
          [''src''] [''dst''] None empty_world) = None
   \<and> fmlookup (nodes (fst (snd (SyncDirectory (NewManager 4096 [''*.tmp'', ''.git/''])
          example_env example_tree 0 [''src''] [''dst''] None empty_world))))
        [''dst'', ''a'', ''x.tmp''] = Some (EFile [1, 2, 3] 438)
   \<and> fmlookup (nodes (fst (snd (SyncDirectory (NewManager 4096 [''*.tmp'', ''.git/''])
          example_env example_tree 0 [''src''] [''dst''] None empty_world))))
        [''dst'', ''.git'', ''config''] = Some (EFile [1] 438)
   \<and> fmlookup (nodes (fst (snd (SyncDirectory (NewManager 4096 [''*.tmp'', ''.git/''])
          example_env example_tree 0 [''src''] [''dst''] None empty_world))))
        [''dst'', ''y.tmp''] = None"
  by code_simp

text \<open>
  The total that the tracker is seeded with is the size of all regular files of the
  source, whatever the ignore patterns are, and the second walk never changes it.
\<close>

lemma syncFn_total:
  "syncFn m env tree source dest cm path info err st = (r, st') \<Longrightarrow>
     total (tracker st') = total (tracker st)"
  by (auto simp: syncFn_def Update_def Let_def
        split: option.splits sum.splits if_splits prod.splits)

lemma visit_all_total:
  "visit_all (syncFn m env tree source dest cm) vs st = (r, st') \<Longrightarrow>
     total (tracker st') = total (tracker st)"
proof (induction vs arbitrary: st)
  case Nil
  then show ?case by simp
next
  case (Cons v vs)
  obtain r1 st1 where s: "syncFn m env tree source dest cm (fst v) (Some (snd v)) None st = (r1, st1)"
    by (cases "syncFn m env tree source dest cm (fst v) (Some (snd v)) None st") auto
  from syncFn_total [OF s] have t1: "total (tracker st1) = total (tracker st)" .
  show ?case
  proof (cases r1)
    case None
    with Cons.prems s have "visit_all (syncFn m env tree source dest cm) vs st1 = (r, st')"
      by simp
    from Cons.IH [OF this] t1 show ?thesis by simp
  next
    case (Some e)
    with Cons.prems s have "st' = st1" by simp
    with t1 show ?thesis by simp
  qed
qed

lemma SyncDirectory_total:
  assumes "lookup tree source = Some n"
    and "SyncDirectory m env tree now source dest cm w = (err, w', Some t)"
  shows "total t = int (tree_bytes n)"
proof -
  from assms(2) obtain st' where
    v: "visit_all (syncFn m env tree source dest cm) (visits_of source (entries n))
          \<lparr> world_of = w, tracker = NewTracker (int (tree_bytes n)) now \<rparr> = (err, st')"
    and t: "t = tracker st'"
    by (auto simp: SyncDirectory_unfold [OF assms(1)] split: prod.splits)
  from visit_all_total [OF v] t show ?thesis by (simp add: NewTracker_def)
qed

text \<open>
  Claim C4. The sizing walk adds up every entry that is neither a directory nor a
  symbolic link and never looks at the ignore patterns: with the pattern \<open>*.tmp\<close> the
  tracker is seeded with all ten bytes of the example tree, although \<open>y.tmp\<close> (four
  bytes) is excluded and never copied, so that the progress ends at six of ten.
\<close>

theorem sizing_pass_counts_excluded_files:
  "snd (snd (SyncDirectory (NewManager 4096 [''*.tmp'']) example_env example_tree 0
          [''src''] [''dst''] None empty_world))
     = Some \<lparr> total = 10, current = 6, startTime = 0 \<rparr>
   \<and> match_ignore [''*.tmp''] ''y.tmp'' = Inr True
   \<and> fmlookup (nodes (fst (snd (SyncDirectory (NewManager 4096 [''*.tmp''])
          example_env example_tree 0 [''src''] [''dst''] None empty_world))))
        [''dst'', ''y.tmp''] = None"
  by code_simp

subsection \<open>Symbolic links\<close>












subsection \<open>Malformed patterns\<close>

text \<open>
  Claim C8 as it is written fails: with the malformed pattern \<open>[\<close> in the ignore list,
  \<open>SyncDirectory\<close> aborts at the first entry, with nothing copied.
\<close>

theorem SyncDirectory_aborts_on_malformed_pattern:
  "SyncDirectory (NewManager 4096 [''['']) example_env example_tree 0 [''src''] [''dst''] None
     empty_world
   = (Some (Wrap ''error matching pattern'' ErrBadPattern), empty_world,
      Some \<lparr> total = 10, current = 0, startTime = 0 \<rparr>)"
  by code_simp

lemma IsPathExcluded_append:
  "IsPathExcluded path (ps @ qs) \<longleftrightarrow> IsPathExcluded path ps \<or> IsPathExcluded path qs"
  by (induction ps) auto

lemma visit_all_append:
  "visit_all fn (xs @ ys) st =
     (case visit_all fn xs st of
        (Some e, st') \<Rightarrow> (Some e, st')
      | (None, st') \<Rightarrow> visit_all fn ys st')"
  by (induction xs arbitrary: st) (auto split: prod.splits option.splits)

lemma visits_of_append:
  "visits_of p (xs @ ys) = visits_of p xs @ visits_of p ys"
  by (simp add: visits_of_def)

lemma syncFn_other_error:
  assumes "filepath_Rel source path = Inr rel"
    and "match_ignore (ignorePatterns m) (path_string rel) = Inr b"
  shows "fst (syncFn m env tree source dest cm path (Some i) None st)
           \<noteq> Some (Wrap ''error matching pattern'' e)"
  using assms
  by (auto simp: syncFn_def Let_def split: sum.splits option.splits prod.splits)

lemma visit_all_other_error:
  assumes "\<forall>rk \<in> set es. \<exists>b. match_ignore (ignorePatterns m) (path_string (fst rk)) = Inr b"
  shows "fst (visit_all (syncFn m env tree source dest cm) (visits_of source es) st)
           \<noteq> Some (Wrap ''error matching pattern'' e)"
  using assms
proof (induction es arbitrary: st)
  case Nil
  then show ?case by (simp add: visits_of_simps)
next
  case (Cons rk es)
  from Cons.prems obtain b where b: "match_ignore (ignorePatterns m) (path_string (fst rk)) = Inr b"
    by auto
  note first = syncFn_other_error [OF Rel_below [of source "fst rk"] b, where env = env and tree = tree
      and dest = dest and cm = cm and i = "info_of (snd rk)" and st = st and e = e]
  obtain r st1 where s: "syncFn m env tree source dest cm (source @ fst rk)
      (Some (info_of (snd rk))) None st = (r, st1)"
    by (cases "syncFn m env tree source dest cm (source @ fst rk)
      (Some (info_of (snd rk))) None st") auto
  show ?case
  proof (cases r)
    case None
    from Cons.prems have "\<forall>rk \<in> set es. \<exists>b. match_ignore (ignorePatterns m) (path_string (fst rk)) = Inr b"
      by simp
    from Cons.IH [OF this, of st1] None s show ?thesis by (simp add: visits_of_simps)
  next
    case (Some x)
    with s first show ?thesis by (simp add: visits_of_simps)
  qed
qed

text \<open>
  Claim C8, amended. In \<open>IsPathExcluded\<close> a pattern on which \<open>filepath.Match\<close> fails is
  never fatal, and unless it ends with the separator it counts as a pattern that does
  not match: the answer is the same without it. \<open>SyncDirectory\<close> has a check of its
  own. The walk goes through the entries in order; at an entry at which
  \<open>filepath.Match\<close> fails on a pattern (before a pattern has matched), \<open>SyncDirectory\<close>
  stops and returns the error, wrapped as "error matching pattern", unless it stopped
  at an entry before that one; the destination is as the entries before that one left
  it, so that what they copied stays copied. Where \<open>filepath.Match\<close> fails at no entry
  of the walk, \<open>SyncDirectory\<close> does not return this error, however the patterns are
  formed.
\<close>

theorem malformed_pattern_handling:
  assumes bad: "filepath_Match bad (filepath_Base path) = Inl e"
  shows "(\<not> strings_HasSuffix bad ''/'' \<longrightarrow>
            IsPathExcluded path (ps @ bad # ps') = IsPathExcluded path (ps @ ps'))
    \<and> (lookup tree source = Some n \<and> entries n = before @ (rel, k) # after
        \<and> match_ignore (ignorePatterns m) (path_string rel) = Inl e' \<longrightarrow>
          SyncDirectory m env tree now source dest cm w =
            (case visit_all (syncFn m env tree source dest cm) (visits_of source before)
                    \<lparr> world_of = w, tracker = NewTracker (int (tree_bytes n)) now \<rparr> of
               (Some e0, st) \<Rightarrow> (Some e0, world_of st, Some (tracker st))
             | (None, st) \<Rightarrow>
                 (Some (Wrap ''error matching pattern'' e'), world_of st, Some (tracker st))))
    \<and> (lookup tree source = Some n
        \<and> (\<forall>rk \<in> set (entries n).
              \<exists>b. match_ignore (ignorePatterns m) (path_string (fst rk)) = Inr b) \<longrightarrow>
          fst (SyncDirectory m env tree now source dest cm w)
            \<noteq> Some (Wrap ''error matching pattern'' e'))"
proof -
  have a: "IsPathExcluded path (ps @ bad # ps') = IsPathExcluded path (ps @ ps')"
    if "\<not> strings_HasSuffix bad ''/''"
    using that bad by (simp add: IsPathExcluded_append)
  have b: "SyncDirectory m env tree now source dest cm w =
            (case visit_all (syncFn m env tree source dest cm) (visits_of source before)
                    \<lparr> world_of = w, tracker = NewTracker (int (tree_bytes n)) now \<rparr> of
               (Some e0, st) \<Rightarrow> (Some e0, world_of st, Some (tracker st))
             | (None, st) \<Rightarrow>
                 (Some (Wrap ''error matching pattern'' e'), world_of st, Some (tracker st)))"
    if src: "lookup tree source = Some n"
      and es: "entries n = before @ (rel, k) # after"
      and m: "match_ignore (ignorePatterns m) (path_string rel) = Inl e'"
  proof -
    note step = syncFn_bad_pattern [OF Rel_below m]
    show ?thesis
      by (simp add: SyncDirectory_unfold [OF src] es visits_of_append visit_all_append
          visits_of_simps step split: prod.splits option.splits)
  qed
  have c: "fst (SyncDirectory m env tree now source dest cm w)
            \<noteq> Some (Wrap ''error matching pattern'' e')"
    if src: "lookup tree source = Some n"
      and ok: "\<forall>rk \<in> set (entries n).
              \<exists>b. match_ignore (ignorePatterns m) (path_string (fst rk)) = Inr b"
  proof -
    obtain r st where v: "visit_all (syncFn m env tree source dest cm)
        (visits_of source (entries n))
        \<lparr> world_of = w, tracker = NewTracker (int (tree_bytes n)) now \<rparr> = (r, st)"
      by (cases "visit_all (syncFn m env tree source dest cm)
        (visits_of source (entries n))
        \<lparr> world_of = w, tracker = NewTracker (int (tree_bytes n)) now \<rparr>") auto
    from visit_all_other_error [OF ok, where e = e' and st =
        "\<lparr> world_of = w, tracker = NewTracker (int (tree_bytes n)) now \<rparr>"
        and env = env and tree = tree and source = source and dest = dest and cm = cm] v
    have "r \<noteq> Some (Wrap ''error matching pattern'' e')" by simp
    with v show ?thesis
      by (simp add: SyncDirectory_unfold [OF src])
  qed
  from a b c show ?thesis by blast
qed

text \<open>
  The theorem at the pattern \<open>b*[\<close>: \<open>filepath.Match\<close> finds it malformed only at a name
  that begins with \<open>b\<close>. The walk of the example copies \<open>.git/config\<close> and \<open>a/x.tmp\<close>,
  four bytes, and stops at \<open>b.txt\<close>.
\<close>

theorem malformed_pattern_handling_witness:
  "\<not> IsPathExcluded ''b.txt'' [''b*['', ''*.tmp'']
   \<and> fst (SyncDirectory (NewManager 4096 [''b*['']) example_env example_tree 7 [''src'']
        [''dst''] None empty_world) = Some (Wrap ''error matching pattern'' ErrBadPattern)
   \<and> written (fst (snd (SyncDirectory (NewManager 4096 [''b*['']) example_env example_tree 7
        [''src''] [''dst''] None empty_world))) = 4
   \<and> fst (SyncDirectory (NewManager 4096 [''z*['']) example_env example_tree 7 [''src'']
        [''dst''] None empty_world) \<noteq> Some (Wrap ''error matching pattern'' ErrBadPattern)"
proof -
  let ?m = "NewManager 4096 [''b*['']"
  let ?z = "NewManager 4096 [''z*['']"
  let ?before = "[([], example_source), ([''.git''], Dir 493 [(''config'', File [1] 420)]),
      ([''.git'', ''config''], File [1] 420), ([''a''], Dir 493 [(''x.tmp'', File [1, 2, 3] 420)]),
      ([''a'', ''x.tmp''], File [1, 2, 3] 420)]"
  let ?after = "[([''l''], Symlink ''b.txt''), ([''y.tmp''], File [6, 7, 8, 9] 420)]"
  have bad: "filepath_Match ''b*['' (filepath_Base ''b.txt'') = Inl ErrBadPattern" by code_simp
  have ns: "\<not> strings_HasSuffix ''b*['' ''/''" by code_simp
  have rest: "\<not> IsPathExcluded ''b.txt'' ([] @ [''*.tmp''])" by code_simp
  have src: "lookup example_tree [''src''] = Some example_source"
    by (simp add: example_tree_def)
  have es: "entries example_source = ?before @ ([''b.txt''], File [4, 5] 420) # ?after"
    by (simp add: example_source_def)
  have mi: "match_ignore (ignorePatterns ?m) (path_string [''b.txt'']) = Inl ErrBadPattern"
    by code_simp
  have zs: "\<forall>rk \<in> set (entries example_source).
      \<exists>b. match_ignore (ignorePatterns ?z) (path_string (fst rk)) = Inr b"
  proof -
    have "list_all (\<lambda>rk. match_ignore (ignorePatterns ?z) (path_string (fst rk)) = Inr False)
        (entries example_source)" by code_simp
    then show ?thesis by (auto simp: list_all_iff)
  qed
  define X where "X = visit_all (syncFn ?m example_env example_tree [''src''] [''dst''] None)
        (visits_of [''src''] ?before)
        \<lparr> world_of = empty_world, tracker = NewTracker (int (tree_bytes example_source)) 7 \<rparr>"
  have f: "fst X = None" and wr: "written (world_of (snd X)) = 4"
    unfolding X_def by code_simp+
  obtain st1 where x: "X = (None, st1)" using f by (cases X) auto
  have first: "IsPathExcluded ''b.txt'' ([] @ ''b*['' # [''*.tmp''])
      = IsPathExcluded ''b.txt'' ([] @ [''*.tmp''])"
    and abort: "SyncDirectory ?m example_env example_tree 7 [''src''] [''dst''] None empty_world =
      (case visit_all (syncFn ?m example_env example_tree [''src''] [''dst''] None)
              (visits_of [''src''] ?before)
              \<lparr> world_of = empty_world, tracker = NewTracker (int (tree_bytes example_source)) 7 \<rparr> of
         (Some e0, st) \<Rightarrow> (Some e0, world_of st, Some (tracker st))
       | (None, st) \<Rightarrow>
           (Some (Wrap ''error matching pattern'' ErrBadPattern), world_of st, Some (tracker st)))"
    using malformed_pattern_handling [OF bad, of "[]" "[''*.tmp'']" example_tree "[''src'']"
      example_source ?before "[''b.txt'']" "File [4, 5] 420" ?after ?m ErrBadPattern
      example_env 7 "[''dst'']" None empty_world] ns src es mi
    by blast+
  have noabort: "fst (SyncDirectory ?z example_env example_tree 7 [''src''] [''dst''] None empty_world)
      \<noteq> Some (Wrap ''error matching pattern'' ErrBadPattern)"
    using malformed_pattern_handling [OF bad, of "[]" "[''*.tmp'']" example_tree "[''src'']"
      example_source ?before "[''b.txt'']" "File [4, 5] 420" ?after ?z ErrBadPattern
      example_env 7 "[''dst'']" None empty_world] src zs
    by blast
  from abort [folded X_def] x
  have "SyncDirectory ?m example_env example_tree 7 [''src''] [''dst''] None empty_world =
      (Some (Wrap ''error matching pattern'' ErrBadPattern), world_of st1, Some (tracker st1))"
    by simp
  with wr x first rest noabort show ?thesis by simp
qed

end
